theory Spec2Isabelle
  imports Complex_Main "HOL-Library.Multiset"
begin

section \<open>JavaScript numbers\<close>

text \<open>
  The optimiser computes with JavaScript numbers. Counts (stations, buffers, population
  size, generations, tournament size, array cells) are integers and are modelled as
  \<open>int\<close> or \<open>nat\<close>. Fitness values, weights and rates are modelled by \<open>jsnum\<close>: the
  three special values of a double and the finite values, the latter idealised as real
  numbers (rounding and overflow are not modelled).
\<close>

datatype jsnum = NaN | NegInf | Fin real | PosInf

text \<open>\<open>jgt a b\<close> is the comparison \<^verbatim>\<open>a > b\<close>: false as soon as one side is NaN.\<close>

fun jgt :: "jsnum \<Rightarrow> jsnum \<Rightarrow> bool" where
  "jgt NaN b = False"
| "jgt a NaN = False"
| "jgt NegInf b = False"
| "jgt (Fin x) NegInf = True"
| "jgt (Fin x) (Fin y) = (y < x)"
| "jgt (Fin x) PosInf = False"
| "jgt PosInf PosInf = False"
| "jgt PosInf b = True"

text \<open>\<open>jge a b\<close> is \<^verbatim>\<open>a >= b\<close>.\<close>

fun jge :: "jsnum \<Rightarrow> jsnum \<Rightarrow> bool" where
  "jge NaN b = False"
| "jge a NaN = False"
| "jge a b = (a = b \<or> jgt a b)"

fun jneg :: "jsnum \<Rightarrow> jsnum" where
  "jneg NaN = NaN"
| "jneg NegInf = PosInf"
| "jneg (Fin x) = Fin (- x)"
| "jneg PosInf = NegInf"

fun jadd :: "jsnum \<Rightarrow> jsnum \<Rightarrow> jsnum" where
  "jadd NaN b = NaN"
| "jadd a NaN = NaN"
| "jadd (Fin x) (Fin y) = Fin (x + y)"
| "jadd (Fin x) b = b"
| "jadd a (Fin y) = a"
| "jadd a b = (if a = b then a else NaN)"

definition jsub :: "jsnum \<Rightarrow> jsnum \<Rightarrow> jsnum" where
  "jsub a b = jadd a (jneg b)"

text \<open>The sign of a number that is not NaN, as needed by multiplication.\<close>

fun jsign :: "jsnum \<Rightarrow> int" where
  "jsign NaN = 0"
| "jsign NegInf = - 1"
| "jsign (Fin x) = (if x < 0 then - 1 else if x = 0 then 0 else 1)"
| "jsign PosInf = 1"

fun jmul :: "jsnum \<Rightarrow> jsnum \<Rightarrow> jsnum" where
  "jmul NaN b = NaN"
| "jmul a NaN = NaN"
| "jmul (Fin x) (Fin y) = Fin (x * y)"
| "jmul a b =
     (let s = jsign a * jsign b
      in if s = 0 then NaN else if s < 0 then NegInf else PosInf)"

text \<open>
  Division of a number by the length of an array, the only division of the evolution
  loop. An empty array divides by (positive) zero: \<^verbatim>\<open>0 / 0\<close> is NaN and \<^verbatim>\<open>x / 0\<close> is an
  infinity with the sign of \<open>x\<close>.
\<close>

fun jdiv_length :: "jsnum \<Rightarrow> nat \<Rightarrow> jsnum" where
  "jdiv_length NaN n = NaN"
| "jdiv_length NegInf n = NegInf"
| "jdiv_length PosInf n = PosInf"
| "jdiv_length (Fin x) n =
     (if n = 0 then (if x = 0 then NaN else if x < 0 then NegInf else PosInf)
      else Fin (x / real n))"

section \<open>The random source\<close>

text \<open>
  \<^verbatim>\<open>Math.random()\<close> returns a double in the half-open interval from 0 to 1. Every such
  double is a rational number, and \<open>Draw p q\<close> stands for the rational
  \<open>p / (p + q + 1)\<close>, which ranges over exactly the rationals of that interval. A run
  reads its draws from a sequence \<open>rnd\<close>, at a position that every function takes and
  returns. Each draw is used once, for one index or for one comparison with a rate.
\<close>

datatype draw = Draw nat nat

fun draw_value :: "draw \<Rightarrow> real" where
  "draw_value (Draw p q) = real p / real (p + q + 1)"

type_synonym random_source = "nat \<Rightarrow> draw"

text \<open>\<^verbatim>\<open>Math.floor(Math.random() * n)\<close> for an array length \<open>n\<close>.\<close>

definition random_index :: "draw \<Rightarrow> nat \<Rightarrow> nat" where
  "random_index d n = nat \<lfloor>draw_value d * real n\<rfloor>"

text \<open>\<^verbatim>\<open>Math.random() < rate\<close>.\<close>

definition random_below :: "draw \<Rightarrow> jsnum \<Rightarrow> bool" where
  "random_below d rate = jgt rate (Fin (draw_value d))"

section \<open>Data model\<close>

text \<open>
  A chromosome is an array of buffer counts. Every cell the program writes is a count
  that starts at zero and is decremented only when positive, so cells are natural
  numbers. A variable or array cell of the program that may hold \<^verbatim>\<open>null\<close> or
  \<^verbatim>\<open>undefined\<close> in place of a chromosome is an \<open>option\<close>, and reading a property of
  such a value raises \<open>TypeError\<close>.
\<close>

type_synonym Chromosome = "nat list"
type_synonym Population = "Chromosome option list"

datatype failure =
    TypeError
  | NaNCell  \<comment> \<open>an increment beyond the end of an array, which stores NaN there\<close>

record GASettings =
  populationSize :: int
  generations :: int
  mutationRate :: jsnum
  crossoverRate :: jsnum
  tournamentSize :: int

record OptimizationParams =
  numStations :: int
  totalBuffers :: int
  w1 :: jsnum
  w2 :: jsnum

record OptimizationResult =
  bestAllocation :: Chromosome
  predictedThroughput :: real
  totalBuffersUsed :: int
  bestFitness :: jsnum

text \<open>
  The field \<^verbatim>\<open>bestFitness\<close> of a progress record is \<open>bestFitness_progress\<close>, to keep
  it apart from the field of the same name of the result.
\<close>

record ProgressData =
  generation :: int
  bestFitness_progress :: jsnum
  avgFitness :: jsnum

section \<open>Fitness model\<close>

definition predictThroughput :: "Chromosome \<Rightarrow> real" where
  "predictThroughput buffers =
     (if length buffers = 0 then 0
      else let total = real (sum_list buffers)
      in if total = 0 then 50
      else let mean = total / real (length buffers);
               variance = foldl (\<lambda>s b. s + (real b - mean)\<^sup>2) 0 buffers
                            / real (length buffers);
               stdDev = sqrt variance;
               baseThroughput = 1000 * (1 - exp (- 0.05 * total));
               imbalancePenalty = 1 + stdDev / (mean + 1)
      in baseThroughput / imbalancePenalty)"

definition calculateFitness :: "Chromosome \<Rightarrow> jsnum \<Rightarrow> jsnum \<Rightarrow> jsnum" where
  "calculateFitness chromosome a b =
     jsub (jmul a (Fin (predictThroughput chromosome)))
          (jmul b (Fin (real (sum_list chromosome))))"

section \<open>Population initialiser\<close>

text \<open>
  The loop of \<^verbatim>\<open>createIndividual\<close>. The slot is an index of \<open>individual\<close>, whose
  length is \<open>numBufferSlots\<close> (lemma \<open>random_index_less\<close>).
\<close>

function createIndividual_loop ::
  "random_source \<Rightarrow> nat \<Rightarrow> nat \<Rightarrow> int \<Rightarrow> Chromosome \<Rightarrow> Chromosome \<times> nat" where
  "createIndividual_loop rnd pos numBufferSlots remainingBuffers individual =
     (if remainingBuffers > 0
      then let slot = random_index (rnd pos) numBufferSlots
           in createIndividual_loop rnd (pos + 1) numBufferSlots (remainingBuffers - 1)
                (individual[slot := individual ! slot + 1])
      else (individual, pos))"
  by pat_completeness auto
termination
  by (relation "measure (\<lambda>(rnd, pos, n, remaining, ind). nat remaining)") auto

declare createIndividual_loop.simps [simp del]

definition createIndividual ::
  "random_source \<Rightarrow> nat \<Rightarrow> int \<Rightarrow> int \<Rightarrow> Chromosome \<times> nat" where
  "createIndividual rnd pos numBufferSlots totalB =
     (if numBufferSlots \<le> 0 then ([], pos)
      else createIndividual_loop rnd pos (nat numBufferSlots) totalB
             (replicate (nat numBufferSlots) 0))"

fun initializePopulation_loop ::
  "random_source \<Rightarrow> nat \<Rightarrow> nat \<Rightarrow> int \<Rightarrow> int \<Rightarrow> Population \<times> nat" where
  "initializePopulation_loop rnd pos 0 numBufferSlots totalB = ([], pos)"
| "initializePopulation_loop rnd pos (Suc n) numBufferSlots totalB =
     (let (individual, pos1) = createIndividual rnd pos numBufferSlots totalB;
          (rest, pos2) = initializePopulation_loop rnd pos1 n numBufferSlots totalB
      in (Some individual # rest, pos2))"

definition initializePopulation ::
  "random_source \<Rightarrow> nat \<Rightarrow> int \<Rightarrow> int \<Rightarrow> int \<Rightarrow> Population \<times> nat" where
  "initializePopulation rnd pos popSize numBufferSlots totalB =
     initializePopulation_loop rnd pos (nat popSize) numBufferSlots totalB"

section \<open>Tournament selection\<close>

text \<open>Reading a cell: beyond the end of the array the result is \<^verbatim>\<open>undefined\<close>.\<close>

definition cell :: "Population \<Rightarrow> nat \<Rightarrow> Chromosome option" where
  "cell population i = (if i < length population then population ! i else None)"

text \<open>
  \<open>tournament_loop rnd population fitnesses n pos (best, bestFitness)\<close> runs \<open>n\<close>
  iterations of the loop. A fitness read beyond the end of \<open>fitnesses\<close> is
  \<^verbatim>\<open>undefined\<close>, which is greater than nothing.
\<close>

fun tournament_loop ::
  "random_source \<Rightarrow> Population \<Rightarrow> jsnum list \<Rightarrow> nat \<Rightarrow> nat \<Rightarrow>
   Chromosome option \<times> jsnum \<Rightarrow> (Chromosome option \<times> jsnum) \<times> nat" where
  "tournament_loop rnd population fitnesses 0 pos acc = (acc, pos)"
| "tournament_loop rnd population fitnesses (Suc n) pos (best, bestFit) =
     (let randomIndex = random_index (rnd pos) (length population)
      in if randomIndex < length fitnesses \<and> jgt (fitnesses ! randomIndex) bestFit
         then tournament_loop rnd population fitnesses n (pos + 1)
                (cell population randomIndex, fitnesses ! randomIndex)
         else tournament_loop rnd population fitnesses n (pos + 1) (best, bestFit))"

definition tournamentSelection ::
  "random_source \<Rightarrow> nat \<Rightarrow> Population \<Rightarrow> jsnum list \<Rightarrow> int \<Rightarrow> Chromosome option \<times> nat" where
  "tournamentSelection rnd pos population fitnesses tournSize =
     (let ((best, bestFit), pos1) =
            tournament_loop rnd population fitnesses (nat tournSize) pos (None, NegInf)
      in (best, pos1))"

section \<open>Crossover with repair\<close>

fun findIndex :: "('a \<Rightarrow> bool) \<Rightarrow> 'a list \<Rightarrow> nat option" where
  "findIndex P [] = None"
| "findIndex P (x # xs) =
     (if P x then Some 0 else map_option Suc (findIndex P xs))"

text \<open>
  The loop of \<^verbatim>\<open>repair\<close>, with the number of iterations begun so far as an extra
  component \<open>iterations\<close> that the program does not have. The index to increase is drawn
  below \<open>sz\<close> (the program's \<^verbatim>\<open>size\<close>), the length of the first parent; where the child is shorter than that,
  the increment stores NaN beyond its end and the model stops with \<open>NaNCell\<close>.
\<close>

function repair_loop ::
  "random_source \<Rightarrow> nat \<Rightarrow> int \<Rightarrow> nat \<Rightarrow> Chromosome \<Rightarrow> int \<Rightarrow> nat \<Rightarrow>
   failure + (Chromosome \<times> nat \<times> nat)" where
  "repair_loop rnd sz totalB pos child currentSum iterations =
     (if currentSum \<noteq> totalB
      then if currentSum > totalB
           then (case findIndex (\<lambda>val. val > 0) child of
                   Some indexToReduce \<Rightarrow>
                     repair_loop rnd sz totalB pos
                       (child[indexToReduce := child ! indexToReduce - 1])
                       (currentSum - 1) (iterations + 1)
                 | None \<Rightarrow>
                     (let (individual, pos1) = createIndividual rnd pos (int sz) totalB
                      in Inr (individual, pos1, iterations + 1)))
           else (let indexToIncrease = random_index (rnd pos) sz
                 in if indexToIncrease < length child
                    then repair_loop rnd sz totalB (pos + 1)
                           (child[indexToIncrease := child ! indexToIncrease + 1])
                           (currentSum + 1) (iterations + 1)
                    else Inl NaNCell)
      else Inr (child, pos, iterations))"
  by pat_completeness auto
termination
  by (relation "measure (\<lambda>(rnd, sz, totalB, pos, child, currentSum, iterations).
                  nat \<bar>currentSum - totalB\<bar>)") auto

declare repair_loop.simps [simp del]

definition repair ::
  "random_source \<Rightarrow> nat \<Rightarrow> int \<Rightarrow> nat \<Rightarrow> Chromosome \<Rightarrow> failure + (Chromosome \<times> nat \<times> nat)" where
  "repair rnd sz totalB pos child =
     repair_loop rnd sz totalB pos child (int (sum_list child)) 0"

fun crossover ::
  "random_source \<Rightarrow> nat \<Rightarrow> Chromosome option \<Rightarrow> Chromosome option \<Rightarrow> int \<Rightarrow>
   failure + ((Chromosome \<times> Chromosome) \<times> nat)" where
  "crossover rnd pos None parent2 totalB = Inl TypeError"
| "crossover rnd pos (Some parent1) None totalB = Inl TypeError"
| "crossover rnd pos (Some parent1) (Some parent2) totalB =
     (let sz = length parent1
      in if sz \<le> 1 then Inr ((parent1, parent2), pos)
         else let crossoverPoint = random_index (rnd pos) (sz - 1) + 1;
                  offspring1 = take crossoverPoint parent1 @ drop crossoverPoint parent2;
                  offspring2 = take crossoverPoint parent2 @ drop crossoverPoint parent1
         in (case repair rnd sz totalB (pos + 1) offspring1 of
               Inl e \<Rightarrow> Inl e
             | Inr (child1, pos1, n1) \<Rightarrow>
                 (case repair rnd sz totalB pos1 offspring2 of
                    Inl e \<Rightarrow> Inl e
                  | Inr (child2, pos2, n2) \<Rightarrow> Inr ((child1, child2), pos2))))"

section \<open>Mutation\<close>

fun mutate :: "random_source \<Rightarrow> nat \<Rightarrow> Chromosome option \<Rightarrow> failure + (Chromosome \<times> nat)" where
  "mutate rnd pos None = Inl TypeError"
| "mutate rnd pos (Some chromosome) =
     (if length chromosome \<le> 1 then Inr (chromosome, pos)
      else let idx1 = random_index (rnd pos) (length chromosome)
      in if chromosome ! idx1 > 0
         then let idx2 = random_index (rnd (pos + 1)) (length chromosome);
                  mutated1 = chromosome[idx1 := chromosome ! idx1 - 1];
                  mutated2 = mutated1[idx2 := mutated1 ! idx2 + 1]
              in Inr (mutated2, pos + 2)
         else Inr (chromosome, pos + 1))"

section \<open>Evolution loop\<close>

text \<open>
  \<^verbatim>\<open>population.map(ind => calculateFitness(ind, w1, w2))\<close>: the fitness of a cell that
  holds no chromosome reads \<^verbatim>\<open>length\<close> of \<^verbatim>\<open>null\<close> or \<^verbatim>\<open>undefined\<close>.
\<close>

fun fitnesses_of :: "jsnum \<Rightarrow> jsnum \<Rightarrow> Population \<Rightarrow> failure + jsnum list" where
  "fitnesses_of a b [] = Inr []"
| "fitnesses_of a b (None # rest) = Inl TypeError"
| "fitnesses_of a b (Some ind # rest) =
     (case fitnesses_of a b rest of
        Inl e \<Rightarrow> Inl e
      | Inr fs \<Rightarrow> Inr (calculateFitness ind a b # fs))"

text \<open>
  The loop over the evaluated population, on the accumulator
  \<open>(currentBestFitness, currentBestIndividual, totalFitness)\<close>.
\<close>

fun scan_loop ::
  "Population \<Rightarrow> jsnum list \<Rightarrow> jsnum \<times> Chromosome option \<times> jsnum \<Rightarrow>
   jsnum \<times> Chromosome option \<times> jsnum" where
  "scan_loop (ind # rest) (f # fs) (currentBestFitness, currentBestIndividual, totalFitness) =
     scan_loop rest fs
       (if jgt f currentBestFitness then (f, ind, jadd totalFitness f)
        else (currentBestFitness, currentBestIndividual, jadd totalFitness f))"
| "scan_loop rest fs acc = acc"

text \<open>\<^verbatim>\<open>if (Math.random() < mutationRate) x = mutate(x)\<close>.\<close>

definition mutate_with_rate ::
  "random_source \<Rightarrow> nat \<Rightarrow> jsnum \<Rightarrow> Chromosome option \<Rightarrow> failure + (Chromosome option \<times> nat)" where
  "mutate_with_rate rnd pos rate x =
     (if random_below (rnd pos) rate
      then (case mutate rnd (pos + 1) x of
              Inl e \<Rightarrow> Inl e
            | Inr (mutated, pos1) \<Rightarrow> Inr (Some mutated, pos1))
      else Inr (x, pos + 1))"

text \<open>
  The body of the loop that fills the new population, up to its last statement: the
  result is the list of cells pushed for the second offspring (none or one) and the first
  offspring, which the loop always pushes. \<open>newLength\<close> is the length of the new
  population when the iteration begins.
\<close>

definition reproduce_step ::
  "GASettings \<Rightarrow> int \<Rightarrow> random_source \<Rightarrow> Population \<Rightarrow> jsnum list \<Rightarrow> nat \<Rightarrow> nat \<Rightarrow>
   failure + (Population \<times> Chromosome option \<times> nat)" where
  "reproduce_step S totalB rnd pop fitnesses newLength pos =
     (let (parent1, pos1) = tournamentSelection rnd pos pop fitnesses (tournamentSize S)
      in if random_below (rnd pos1) (crossoverRate S)
         then (let (parent2, pos2) =
                     tournamentSelection rnd (pos1 + 1) pop fitnesses (tournamentSize S)
               in case crossover rnd pos2 parent1 parent2 totalB of
                    Inl e \<Rightarrow> Inl e
                  | Inr ((offspring1, offspring2), pos3) \<Rightarrow>
                      (case mutate_with_rate rnd pos3 (mutationRate S) (Some offspring2) of
                         Inl e \<Rightarrow> Inl e
                       | Inr (offspring2', pos4) \<Rightarrow>
                           (case mutate_with_rate rnd pos4 (mutationRate S) (Some offspring1) of
                              Inl e \<Rightarrow> Inl e
                            | Inr (offspring1', pos5) \<Rightarrow>
                                Inr (if int newLength < populationSize S then [offspring2'] else [],
                                     offspring1', pos5))))
         else (case mutate_with_rate rnd (pos1 + 1) (mutationRate S) parent1 of
                 Inl e \<Rightarrow> Inl e
               | Inr (offspring1', pos2) \<Rightarrow> Inr ([], offspring1', pos2)))"

function reproduce ::
  "GASettings \<Rightarrow> int \<Rightarrow> random_source \<Rightarrow> Population \<Rightarrow> jsnum list \<Rightarrow> Population \<Rightarrow> nat \<Rightarrow>
   failure + (Population \<times> nat)" where
  "reproduce S totalB rnd pop fitnesses newPopulation pos =
     (if int (length newPopulation) < populationSize S
      then (case reproduce_step S totalB rnd pop fitnesses (length newPopulation) pos of
              Inl e \<Rightarrow> Inl e
            | Inr (pushed2, offspring1, pos1) \<Rightarrow>
                reproduce S totalB rnd pop fitnesses
                  (newPopulation @ pushed2 @ [offspring1]) pos1)
      else Inr (newPopulation, pos))"
  by pat_completeness auto
termination
  by (relation "measure (\<lambda>(S, totalB, rnd, pop, fitnesses, newPopulation, pos).
                  nat (populationSize S - int (length newPopulation)))") auto

declare reproduce.simps [simp del]

text \<open>\<^verbatim>\<open>xs.slice(0, e)\<close>: a negative end counts from the end of the array.\<close>

definition slice0 :: "'a list \<Rightarrow> int \<Rightarrow> 'a list" where
  "slice0 xs e = (if e < 0 then take (nat (int (length xs) + e)) xs else take (nat e) xs)"

text \<open>The variables of \<^verbatim>\<open>runGA\<close> that live across generations, and the position in the
  random source.\<close>

record ga_state =
  population :: Population
  bestEver :: "Chromosome option"
  bestFitnessEver :: jsnum
  position :: nat

text \<open>One iteration of the generation loop: the state after it and the record it yields.\<close>

definition generation_step ::
  "OptimizationParams \<Rightarrow> GASettings \<Rightarrow> random_source \<Rightarrow> int \<Rightarrow> ga_state \<Rightarrow>
   failure + (ga_state \<times> ProgressData)" where
  "generation_step P S rnd gen st =
     (case fitnesses_of (w1 P) (w2 P) (population st) of
        Inl e \<Rightarrow> Inl e
      | Inr fitnesses \<Rightarrow>
          (let (currentBestFitness, currentBestIndividual, totalFitness) =
                 scan_loop (population st) fitnesses (NegInf, None, Fin 0);
               (bestFit, best) =
                 (if jgt currentBestFitness (bestFitnessEver st)
                  then (currentBestFitness, currentBestIndividual)
                  else (bestFitnessEver st, bestEver st))
           in case reproduce S (totalBuffers P) rnd (population st) fitnesses [best]
                     (position st) of
                Inl e \<Rightarrow> Inl e
              | Inr (newPopulation, pos1) \<Rightarrow>
                  (let pop1 = slice0 newPopulation (populationSize S)
                   in Inr (\<lparr>population = pop1, bestEver = best, bestFitnessEver = bestFit,
                             position = pos1\<rparr>,
                           \<lparr>generation = gen + 1, bestFitness_progress = bestFit,
                             avgFitness = jdiv_length totalFitness (length pop1)\<rparr>))))"

text \<open>
  The generation loop. Its result is the sequence of records yielded, each paired with
  the state in which its generation began (whose population is the one evaluated in that
  generation), and either the failure that ended the loop or the state after it.
\<close>

function ga_loop ::
  "OptimizationParams \<Rightarrow> GASettings \<Rightarrow> random_source \<Rightarrow> int \<Rightarrow> ga_state \<Rightarrow>
   (ga_state \<times> ProgressData) list \<times> (failure + ga_state)" where
  "ga_loop P S rnd gen st =
     (if gen < generations S
      then (case generation_step P S rnd gen st of
              Inl e \<Rightarrow> ([], Inl e)
            | Inr (st1, progress) \<Rightarrow>
                (let (rest, outcome) = ga_loop P S rnd (gen + 1) st1
                 in ((st, progress) # rest, outcome)))
      else ([], Inr st))"
  by pat_completeness auto
termination
  by (relation "measure (\<lambda>(P, S, rnd, gen, st). nat (generations S - gen))") auto

declare ga_loop.simps [simp del]

definition final_result :: "ga_state \<Rightarrow> failure + OptimizationResult" where
  "final_result st =
     (case bestEver st of
        None \<Rightarrow> Inl TypeError
      | Some best \<Rightarrow>
          Inr \<lparr>bestAllocation = best, predictedThroughput = predictThroughput best,
               totalBuffersUsed = int (sum_list best), bestFitness = bestFitnessEver st\<rparr>)"

definition initial_state :: "OptimizationParams \<Rightarrow> GASettings \<Rightarrow> random_source \<Rightarrow> ga_state" where
  "initial_state P S rnd =
     (let (pop, pos) = initializePopulation rnd 0 (populationSize S) (numStations P - 1)
                         (totalBuffers P)
      in \<lparr>population = pop, bestEver = cell pop 0, bestFitnessEver = NegInf, position = pos\<rparr>)"

text \<open>The run past the degenerate case, with the states along the way.\<close>

definition runGA_trace ::
  "OptimizationParams \<Rightarrow> GASettings \<Rightarrow> random_source \<Rightarrow>
   (ga_state \<times> ProgressData) list \<times> (failure + ga_state)" where
  "runGA_trace P S rnd = ga_loop P S rnd 0 (initial_state P S rnd)"

text \<open>
  \<^verbatim>\<open>runGA\<close>: the records the generator yields, in order, and what it ends with: the
  result it returns or the exception it throws.
\<close>

definition runGA ::
  "OptimizationParams \<Rightarrow> GASettings \<Rightarrow> random_source \<Rightarrow>
   ProgressData list \<times> (failure + OptimizationResult)" where
  "runGA P S rnd =
     (let numBufferSlots = numStations P - 1
      in if numBufferSlots \<le> 0
         then ([], Inr \<lparr>bestAllocation = [], predictedThroughput = 0, totalBuffersUsed = 0,
                         bestFitness = NegInf\<rparr>)
         else (let (trace, outcome) = runGA_trace P S rnd
               in (map snd trace,
                   case outcome of Inl e \<Rightarrow> Inl e | Inr st \<Rightarrow> final_result st)))"

subsection \<open>The loop for an arbitrary fitness function\<close>

text \<open>
  \<open>calculateFitness\<close> above computes over the reals. The program computes in double
  precision, where a fitness is rounded and where the products \<^verbatim>\<open>w1 * throughput\<close> and
  \<^verbatim>\<open>w2 * totalBuffers\<close> of finite numbers may overflow to an infinity, and their
  difference be an infinity or NaN. The evolution loop is therefore also given with the
  function \<^verbatim>\<open>ind => calculateFitness(ind, w1, w2)\<close> as a parameter \<open>fit\<close>, which stands for
  whatever number the program computes for a chromosome; everything else is as above.
  Properties of a run that need the fitnesses to be numbers greater than negative
  infinity are stated for this loop, with that premise on \<open>fit\<close>.
\<close>

fun fitnesses_by :: "(Chromosome \<Rightarrow> jsnum) \<Rightarrow> Population \<Rightarrow> failure + jsnum list" where
  "fitnesses_by fit [] = Inr []"
| "fitnesses_by fit (None # rest) = Inl TypeError"
| "fitnesses_by fit (Some ind # rest) =
     (case fitnesses_by fit rest of
        Inl e \<Rightarrow> Inl e
      | Inr fs \<Rightarrow> Inr (fit ind # fs))"

definition generation_step_by ::
  "(Chromosome \<Rightarrow> jsnum) \<Rightarrow> OptimizationParams \<Rightarrow> GASettings \<Rightarrow> random_source \<Rightarrow> int \<Rightarrow>
   ga_state \<Rightarrow> failure + (ga_state \<times> ProgressData)" where
  "generation_step_by fit P S rnd gen st =
     (case fitnesses_by fit (population st) of
        Inl e \<Rightarrow> Inl e
      | Inr fitnesses \<Rightarrow>
          (let (currentBestFitness, currentBestIndividual, totalFitness) =
                 scan_loop (population st) fitnesses (NegInf, None, Fin 0);
               (bestFit, best) =
                 (if jgt currentBestFitness (bestFitnessEver st)
                  then (currentBestFitness, currentBestIndividual)
                  else (bestFitnessEver st, bestEver st))
           in case reproduce S (totalBuffers P) rnd (population st) fitnesses [best]
                     (position st) of
                Inl e \<Rightarrow> Inl e
              | Inr (newPopulation, pos1) \<Rightarrow>
                  (let pop1 = slice0 newPopulation (populationSize S)
                   in Inr (\<lparr>population = pop1, bestEver = best, bestFitnessEver = bestFit,
                             position = pos1\<rparr>,
                           \<lparr>generation = gen + 1, bestFitness_progress = bestFit,
                             avgFitness = jdiv_length totalFitness (length pop1)\<rparr>))))"

function ga_loop_by ::
  "(Chromosome \<Rightarrow> jsnum) \<Rightarrow> OptimizationParams \<Rightarrow> GASettings \<Rightarrow> random_source \<Rightarrow> int \<Rightarrow>
   ga_state \<Rightarrow> (ga_state \<times> ProgressData) list \<times> (failure + ga_state)" where
  "ga_loop_by fit P S rnd gen st =
     (if gen < generations S
      then (case generation_step_by fit P S rnd gen st of
              Inl e \<Rightarrow> ([], Inl e)
            | Inr (st1, progress) \<Rightarrow>
                (let (rest, outcome) = ga_loop_by fit P S rnd (gen + 1) st1
                 in ((st, progress) # rest, outcome)))
      else ([], Inr st))"
  by pat_completeness auto
termination
  by (relation "measure (\<lambda>(fit, P, S, rnd, gen, st). nat (generations S - gen))") auto

declare ga_loop_by.simps [simp del]

definition runGA_trace_by ::
  "(Chromosome \<Rightarrow> jsnum) \<Rightarrow> OptimizationParams \<Rightarrow> GASettings \<Rightarrow> random_source \<Rightarrow>
   (ga_state \<times> ProgressData) list \<times> (failure + ga_state)" where
  "runGA_trace_by fit P S rnd = ga_loop_by fit P S rnd 0 (initial_state P S rnd)"

definition runGA_by ::
  "(Chromosome \<Rightarrow> jsnum) \<Rightarrow> OptimizationParams \<Rightarrow> GASettings \<Rightarrow> random_source \<Rightarrow>
   ProgressData list \<times> (failure + OptimizationResult)" where
  "runGA_by fit P S rnd =
     (let numBufferSlots = numStations P - 1
      in if numBufferSlots \<le> 0
         then ([], Inr \<lparr>bestAllocation = [], predictedThroughput = 0, totalBuffersUsed = 0,
                         bestFitness = NegInf\<rparr>)
         else (let (trace, outcome) = runGA_trace_by fit P S rnd
               in (map snd trace,
                   case outcome of Inl e \<Rightarrow> Inl e | Inr st \<Rightarrow> final_result st)))"

text \<open>The fitness function of the loop above: \<open>calculateFitness\<close> at the weights of a run.\<close>

definition model_fitness :: "OptimizationParams \<Rightarrow> Chromosome \<Rightarrow> jsnum" where
  "model_fitness P ind = calculateFitness ind (w1 P) (w2 P)"

section \<open>Invariants\<close>

text \<open>
  A cell is admissible for \<open>L\<close> slots and \<open>T\<close> buffers when it holds a chromosome of
  length \<open>L\<close> whose cells add up to \<open>T\<close>, or to zero when \<open>T\<close> is negative (no buffer
  is ever placed then).
\<close>

definition admissible :: "nat \<Rightarrow> int \<Rightarrow> Chromosome option \<Rightarrow> bool" where
  "admissible L T x =
     (case x of None \<Rightarrow> False | Some c \<Rightarrow> length c = L \<and> int (sum_list c) = max 0 T)"

text \<open>\<^verbatim>\<open>Number.isFinite\<close>: neither NaN nor an infinity.\<close>

fun is_finite :: "jsnum \<Rightarrow> bool" where
  "is_finite (Fin x) = True"
| "is_finite a = False"

text \<open>
  The invariant of the generation loop: the population has \<open>populationSize\<close> cells, all
  of them admissible, and so is the best individual so far.
\<close>

definition ga_inv :: "OptimizationParams \<Rightarrow> GASettings \<Rightarrow> ga_state \<Rightarrow> bool" where
  "ga_inv P S st =
     (length (population st) = nat (populationSize S) \<and>
      (\<forall>x \<in> set (population st). admissible (nat (numStations P - 1)) (totalBuffers P) x) \<and>
      admissible (nat (numStations P - 1)) (totalBuffers P) (bestEver st))"

text \<open>
  The constraint of the specification on a chromosome: as many cells as there are buffer
  slots, adding up to the number of buffers. A population is valid when each of its
  cells holds a valid chromosome.
\<close>

definition valid_chromosome :: "OptimizationParams \<Rightarrow> Chromosome \<Rightarrow> bool" where
  "valid_chromosome P c =
     (int (length c) = numStations P - 1 \<and> int (sum_list c) = totalBuffers P)"

definition valid_population :: "OptimizationParams \<Rightarrow> Population \<Rightarrow> bool" where
  "valid_population P pop =
     list_all (\<lambda>x. case x of None \<Rightarrow> False | Some c \<Rightarrow> valid_chromosome P c) pop"

section \<open>Example runs\<close>

text \<open>
  Three stations and one buffer, both weights 1, two generations of a population of two
  with a tournament of one, crossover and mutation at every opportunity, and a random
  source whose every draw is 0.
\<close>

definition example_params :: OptimizationParams where
  "example_params = \<lparr>numStations = 3, totalBuffers = 1, w1 = Fin 1, w2 = Fin 1\<rparr>"

definition example_settings :: GASettings where
  "example_settings =
     \<lparr>populationSize = 2, generations = 2, mutationRate = Fin 1, crossoverRate = Fin 1,
      tournamentSize = 1\<rparr>"

definition zero_draws :: random_source where
  "zero_draws = (\<lambda>i. Draw 0 0)"

text \<open>Settings with a tournament of size zero, and neither crossover nor mutation.\<close>

definition no_tournament_settings :: GASettings where
  "no_tournament_settings =
     \<lparr>populationSize = 2, generations = 1, mutationRate = Fin 0, crossoverRate = Fin 0,
      tournamentSize = 0\<rparr>"

section \<open>Lemmas on the operators\<close>


lemma draw_value_range: "0 \<le> draw_value d \<and> draw_value d < 1"
  by (cases d) simp

lemma random_index_less: "0 < n \<Longrightarrow> random_index d n < n"
proof -
  assume n: "0 < n"
  have "draw_value d * real n < real n"
    using draw_value_range [of d] n by simp
  then have "\<lfloor>draw_value d * real n\<rfloor> < int n"
    by (simp add: floor_less_iff)
  then show ?thesis
    using n by (simp add: random_index_def)
qed

lemma random_index_zero: "random_index (Draw 0 q) n = 0"
  by (simp add: random_index_def)

text \<open>
  With real arithmetic in place of doubles, the throughput depends on the multiset of the
  cells only. The program adds the squared deviations from left to right in double
  precision, where the order of the cells decides how the sum is rounded; this lemma says
  nothing about that.
\<close>

lemma foldl_plus_sum_list:
  "foldl (\<lambda>s b. s + f b) a xs = a + sum_list (map f xs)"
  for a :: real
  by (induction xs arbitrary: a) (simp_all add: add.assoc)

lemma predictThroughput_permutation_over_reals:
  assumes "mset permuted = mset buffers"
  shows "predictThroughput permuted = predictThroughput buffers"
proof -
  have len: "length permuted = length buffers"
    using assms by (rule mset_eq_length)
  have sum: "sum_list permuted = sum_list buffers"
    using assms by (metis sum_mset_sum_list)
  have "mset (map f permuted) = mset (map f buffers)" for f :: "nat \<Rightarrow> real"
    using assms by simp
  then have sq: "sum_list (map f permuted) = sum_list (map f buffers)" for f :: "nat \<Rightarrow> real"
    by (metis sum_mset_sum_list)
  show ?thesis
    by (simp only: predictThroughput_def foldl_plus_sum_list len sum sq)
qed

lemma createIndividual_loop_props:
  "0 < n \<Longrightarrow> length ind = n \<Longrightarrow>
   length (fst (createIndividual_loop rnd pos n r ind)) = n \<and>
   sum_list (fst (createIndividual_loop rnd pos n r ind)) = sum_list ind + nat r"
proof (induction rnd pos n r ind rule: createIndividual_loop.induct)
  case (1 rnd pos n r ind)
  show ?case
  proof (cases "r > 0")
    case True
    let ?slot = "random_index (rnd pos) n"
    have slot: "?slot < length ind"
      using "1.prems" by (simp add: random_index_less)
    have sum: "sum_list (ind[?slot := ind ! ?slot + 1]) = sum_list ind + 1"
      using slot by (simp add: sum_list_update)
    have "nat r = nat (r - 1) + 1"
      using True by simp
    then show ?thesis
      using True "1.IH" [OF True refl] "1.prems" sum
      by (subst (1 2) createIndividual_loop.simps) (simp add: Let_def)
  next
    case False
    then show ?thesis
      using "1.prems" by (subst (1 2) createIndividual_loop.simps) simp
  qed
qed

lemma createIndividual_props:
  "0 < L \<Longrightarrow>
   length (fst (createIndividual rnd pos L T)) = nat L \<and>
   int (sum_list (fst (createIndividual rnd pos L T))) = max 0 T"
  using createIndividual_loop_props [of "nat L" "replicate (nat L) 0" rnd pos T]
  by (simp add: createIndividual_def)

lemma findIndex_Some: "findIndex P xs = Some i \<Longrightarrow> i < length xs \<and> P (xs ! i)"
  by (induction xs arbitrary: i) (auto split: if_splits)

lemma findIndex_None: "findIndex P xs = None \<Longrightarrow> \<forall>x \<in> set xs. \<not> P x"
  by (induction xs) (auto split: if_splits)

lemma sum_list_decrement:
  "i < length (xs :: nat list) \<Longrightarrow> 0 < xs ! i \<Longrightarrow>
   int (sum_list (xs[i := xs ! i - 1])) = int (sum_list xs) - 1"
proof -
  assume i: "i < length xs" and pos: "0 < xs ! i"
  have "xs ! i \<le> sum_list xs"
    using i by (simp add: member_le_sum_list)
  then show ?thesis
    using i pos by (simp add: sum_list_update)
qed

lemma sum_list_increment:
  "i < length (xs :: nat list) \<Longrightarrow>
   int (sum_list (xs[i := xs ! i + 1])) = int (sum_list xs) + 1"
  by (simp add: sum_list_update)

lemma repair_loop_props:
  "0 < sz \<Longrightarrow> length child = sz \<Longrightarrow> cs = int (sum_list child) \<Longrightarrow>
   \<exists>c pos1 n. repair_loop rnd sz T pos child cs it = Inr (c, pos1, n) \<and>
      length c = sz \<and> int (sum_list c) = max 0 T \<and> n \<le> it + nat \<bar>cs - T\<bar>"
proof (induction rnd sz T pos child cs it rule: repair_loop.induct)
  case (1 rnd sz T pos child cs it)
  show ?case
  proof (cases "cs = T")
    case True
    then show ?thesis
      using "1.prems" by (subst repair_loop.simps) simp
  next
    case ne: False
    show ?thesis
    proof (cases "cs > T")
      case gt: True
      show ?thesis
      proof (cases "findIndex (\<lambda>val. val > 0) child")
        case None
        obtain ind pos1 where ci: "createIndividual rnd pos (int sz) T = (ind, pos1)"
          by (cases "createIndividual rnd pos (int sz) T")
        have "length ind = sz \<and> int (sum_list ind) = max 0 T"
          using createIndividual_props [of "int sz" rnd pos T] "1.prems"(1) ci by simp
        then show ?thesis
          using ne gt None ci by (subst repair_loop.simps) simp
      next
        case (Some i)
        have i: "i < length child" "0 < child ! i"
          using findIndex_Some [OF Some] by simp_all
        let ?child = "child[i := child ! i - 1]"
        have "\<exists>c pos1 n. repair_loop rnd sz T pos ?child (cs - 1) (it + 1) = Inr (c, pos1, n) \<and>
                length c = sz \<and> int (sum_list c) = max 0 T \<and> n \<le> (it + 1) + nat \<bar>cs - 1 - T\<bar>"
          using "1.IH"(1) [OF ne gt Some] "1.prems" sum_list_decrement [OF i] by simp
        then obtain c pos1 n where
          r: "repair_loop rnd sz T pos ?child (cs - 1) (it + 1) = Inr (c, pos1, n)"
          and c: "length c = sz" "int (sum_list c) = max 0 T"
          and n: "n \<le> (it + 1) + nat \<bar>cs - 1 - T\<bar>"
          by blast
        have "n \<le> it + nat \<bar>cs - T\<bar>"
          using n gt by linarith
        moreover have "repair_loop rnd sz T pos child cs it = Inr (c, pos1, n)"
          using ne gt Some r by (subst repair_loop.simps) simp
        ultimately show ?thesis
          using c by blast
      qed
    next
      case le: False
      let ?i = "random_index (rnd pos) sz"
      have i: "?i < length child"
        using "1.prems" by (simp add: random_index_less)
      let ?child = "child[?i := child ! ?i + 1]"
      have "\<exists>c pos1 n. repair_loop rnd sz T (pos + 1) ?child (cs + 1) (it + 1) = Inr (c, pos1, n) \<and>
              length c = sz \<and> int (sum_list c) = max 0 T \<and> n \<le> (it + 1) + nat \<bar>cs + 1 - T\<bar>"
        using "1.IH"(2) [OF ne le refl i] "1.prems" sum_list_increment [OF i] by simp
      then obtain c pos1 n where
        r: "repair_loop rnd sz T (pos + 1) ?child (cs + 1) (it + 1) = Inr (c, pos1, n)"
        and c: "length c = sz" "int (sum_list c) = max 0 T"
        and n: "n \<le> (it + 1) + nat \<bar>cs + 1 - T\<bar>"
        by blast
      have "n \<le> it + nat \<bar>cs - T\<bar>"
        using n ne le by linarith
      moreover have "repair_loop rnd sz T pos child cs it = Inr (c, pos1, n)"
        using ne le i r by (subst repair_loop.simps) (simp add: Let_def)
      ultimately show ?thesis
        using c by blast
    qed
  qed
qed

lemma repair_props:
  "0 < sz \<Longrightarrow> length child = sz \<Longrightarrow>
   \<exists>c pos1 n. repair rnd sz T pos child = Inr (c, pos1, n) \<and>
      length c = sz \<and> int (sum_list c) = max 0 T \<and> n \<le> nat \<bar>int (sum_list child) - T\<bar>"
  using repair_loop_props [of sz child "int (sum_list child)" rnd T pos 0]
  by (simp add: repair_def)

lemma mutate_props:
  "\<exists>m pos1. mutate rnd pos (Some c) = Inr (m, pos1) \<and> length m = length c \<and>
     sum_list m = sum_list c"
proof (cases "length c \<le> 1")
  case True
  then show ?thesis by simp
next
  case False
  let ?i = "random_index (rnd pos) (length c)"
  let ?j = "random_index (rnd (pos + 1)) (length c)"
  have "0 < length c"
    using False by (cases c) simp_all
  then have i: "?i < length c" and j: "?j < length c"
    by (simp_all add: random_index_less)
  show ?thesis
  proof (cases "0 < c ! ?i")
    case True
    let ?m1 = "c[?i := c ! ?i - 1]"
    have "int (sum_list ?m1) = int (sum_list c) - 1"
      using sum_list_decrement [OF i True] .
    moreover have "int (sum_list (?m1[?j := ?m1 ! ?j + 1])) = int (sum_list ?m1) + 1"
      using j by (intro sum_list_increment) simp
    ultimately have "sum_list (?m1[?j := ?m1 ! ?j + 1]) = sum_list c"
      by linarith
    then show ?thesis
      using False True by (simp add: Let_def)
  next
    case zero: False
    then show ?thesis
      using False by (simp add: Let_def)
  qed
qed

lemma admissible_Some:
  "admissible L T (Some c) = (length c = L \<and> int (sum_list c) = max 0 T)"
  by (simp add: admissible_def)

lemma admissible_None: "\<not> admissible L T None"
  by (simp add: admissible_def)

lemma crossover_props:
  assumes p1: "admissible L T (Some parent1)" and p2: "admissible L T (Some parent2)"
  shows "\<exists>c1 c2 pos1. crossover rnd pos (Some parent1) (Some parent2) T = Inr ((c1, c2), pos1) \<and>
           admissible L T (Some c1) \<and> admissible L T (Some c2)"
proof (cases "L \<le> 1")
  case True
  then show ?thesis
    using p1 p2 by (simp add: admissible_Some)
next
  case False
  have len: "length parent1 = L" "length parent2 = L"
    using p1 p2 by (simp_all add: admissible_Some)
  define cut where "cut = random_index (rnd pos) (L - 1) + 1"
  define o1 where "o1 = take cut parent1 @ drop cut parent2"
  define o2 where "o2 = take cut parent2 @ drop cut parent1"
  have "random_index (rnd pos) (L - 1) < L - 1"
    using False by (intro random_index_less) simp
  then have cut: "cut \<le> L"
    by (simp add: cut_def)
  have lo: "length o1 = L" "length o2 = L"
    using cut len by (simp_all add: o1_def o2_def)
  have L: "0 < L"
    using False by simp
  obtain c1 pos1 n1 where r1: "repair rnd L T (pos + 1) o1 = Inr (c1, pos1, n1)"
    and c1: "length c1 = L" "int (sum_list c1) = max 0 T"
    using repair_props [OF L lo(1), of rnd T "pos + 1"] by blast
  obtain c2 pos2 n2 where r2: "repair rnd L T pos1 o2 = Inr (c2, pos2, n2)"
    and c2: "length c2 = L" "int (sum_list c2) = max 0 T"
    using repair_props [OF L lo(2), of rnd T pos1] by blast
  have "crossover rnd pos (Some parent1) (Some parent2) T = Inr ((c1, c2), pos2)"
    using False len r1 r2 by (simp add: Let_def cut_def o1_def o2_def)
  then show ?thesis
    using c1 c2 by (simp add: admissible_Some)
qed

lemma cell_member: "i < length pop \<Longrightarrow> cell pop i \<in> set pop"
  by (simp add: cell_def)

lemma tournament_loop_position:
  "snd (tournament_loop rnd pop fits n pos acc) = pos + n"
  by (induction n arbitrary: pos acc) (auto simp: Let_def split: prod.splits)

lemma tournament_loop_keeps:
  "pop \<noteq> [] \<Longrightarrow> b \<in> set pop \<Longrightarrow>
   fst (fst (tournament_loop rnd pop fits n pos (b, bf))) \<in> set pop"
proof (induction n arbitrary: pos b bf)
  case 0
  then show ?case by simp
next
  case (Suc n)
  have "random_index (rnd pos) (length pop) < length pop"
    using Suc.prems(1) by (simp add: random_index_less)
  then have "cell pop (random_index (rnd pos) (length pop)) \<in> set pop"
    by (rule cell_member)
  then show ?case
    using Suc by (simp add: Let_def)
qed

lemma tournament_loop_first:
  assumes "pop \<noteq> []" and "length fits = length pop" and "\<forall>f \<in> set fits. jgt f NegInf"
  shows "tournament_loop rnd pop fits (Suc n) pos (None, NegInf) =
         tournament_loop rnd pop fits n (pos + 1)
           (cell pop (random_index (rnd pos) (length pop)),
            fits ! random_index (rnd pos) (length pop))"
proof -
  have "random_index (rnd pos) (length pop) < length fits"
    using assms(1,2) by (simp add: random_index_less)
  then show ?thesis
    using assms(3) by (simp add: Let_def)
qed

lemma tournament_loop_none:
  assumes "\<forall>i < n. \<not> jgt (fits ! random_index (rnd (pos + i)) (length pop)) NegInf"
  shows "tournament_loop rnd pop fits n pos (None, NegInf) = ((None, NegInf), pos + n)"
  using assms
proof (induction n arbitrary: pos)
  case 0
  then show ?case by simp
next
  case (Suc n)
  have here: "\<not> jgt (fits ! random_index (rnd pos) (length pop)) NegInf"
    using Suc.prems by force
  have "\<forall>i < n. \<not> jgt (fits ! random_index (rnd (Suc pos + i)) (length pop)) NegInf"
    using Suc.prems by force
  then show ?case
    using Suc.IH [of "Suc pos"] here by (simp add: Let_def)
qed

lemma tournamentSelection_eq:
  "tournamentSelection rnd pos pop fits T =
     (fst (fst (tournament_loop rnd pop fits (nat T) pos (None, NegInf))),
      snd (tournament_loop rnd pop fits (nat T) pos (None, NegInf)))"
  by (simp add: tournamentSelection_def case_prod_beta)

lemma tournamentSelection_member:
  assumes "pop \<noteq> []" and "length fits = length pop" and "\<forall>f \<in> set fits. jgt f NegInf"
    and "1 \<le> T"
  shows "fst (tournamentSelection rnd pos pop fits T) \<in> set pop"
proof -
  obtain n where n: "nat T = Suc n"
    using assms(4) by (cases "nat T") simp_all
  have "random_index (rnd pos) (length pop) < length pop"
    using assms(1) by (simp add: random_index_less)
  then have "cell pop (random_index (rnd pos) (length pop)) \<in> set pop"
    by (rule cell_member)
  then have "fst (fst (tournament_loop rnd pop fits (Suc n) pos (None, NegInf))) \<in> set pop"
    using tournament_loop_first [OF assms(1-3)] tournament_loop_keeps [OF assms(1)]
    by simp
  then show ?thesis
    unfolding tournamentSelection_eq n by simp
qed

lemma tournamentSelection_position:
  "snd (tournamentSelection rnd pos pop fits T) = pos + nat T"
  by (simp add: tournamentSelection_eq tournament_loop_position)

lemma initializePopulation_loop_props:
  "0 < L \<Longrightarrow>
   length (fst (initializePopulation_loop rnd pos n L T)) = n \<and>
   (\<forall>x \<in> set (fst (initializePopulation_loop rnd pos n L T)). admissible (nat L) T x)"
proof (induction n arbitrary: pos)
  case 0
  then show ?case by simp
next
  case (Suc n)
  obtain ind pos1 where ci: "createIndividual rnd pos L T = (ind, pos1)"
    by (cases "createIndividual rnd pos L T")
  obtain rest pos2 where r: "initializePopulation_loop rnd pos1 n L T = (rest, pos2)"
    by (cases "initializePopulation_loop rnd pos1 n L T")
  have "admissible (nat L) T (Some ind)"
    using createIndividual_props [OF Suc.prems, of rnd pos T] ci
    by (simp add: admissible_Some)
  then show ?case
    using Suc.IH [OF Suc.prems, of pos1] ci r by simp
qed

lemma initializePopulation_props:
  "0 < L \<Longrightarrow>
   length (fst (initializePopulation rnd pos n L T)) = nat n \<and>
   (\<forall>x \<in> set (fst (initializePopulation rnd pos n L T)). admissible (nat L) T x)"
  by (simp add: initializePopulation_def initializePopulation_loop_props)

lemma initializePopulation_head:
  "1 \<le> n \<Longrightarrow>
   cell (fst (initializePopulation rnd pos n L T)) 0 = Some (fst (createIndividual rnd pos L T))"
proof -
  assume "1 \<le> n"
  then obtain m where m: "nat n = Suc m"
    by (cases "nat n") simp_all
  show ?thesis
    by (simp add: initializePopulation_def m cell_def case_prod_beta)
qed

lemma ga_loop_done: "\<not> gen < generations S \<Longrightarrow> ga_loop P S rnd gen st = ([], Inr st)"
  by (subst ga_loop.simps) simp

lemma member_is_Some: "x \<in> set pop \<Longrightarrow> None \<notin> set pop \<Longrightarrow> \<exists>c. x = Some c"
  by (cases x) auto

section \<open>Lemmas on the evolution loop\<close>

text \<open>
  Over the reals, finite weights give a finite fitness. In double precision they need
  not: the products may overflow. No property of a run is derived from this lemma but
  for the example run, whose weights are 1.
\<close>

lemma calculateFitness_finite:
  "is_finite a \<Longrightarrow> is_finite b \<Longrightarrow> jgt (calculateFitness c a b) NegInf"
  by (cases a; cases b) (simp_all add: calculateFitness_def jsub_def)

lemma fitnesses_of_Inr:
  "fitnesses_of a b pop = Inr fs \<Longrightarrow> length fs = length pop \<and> None \<notin> set pop"
proof (induction pop arbitrary: fs)
  case Nil
  then show ?case by simp
next
  case (Cons x pop)
  then show ?case
    by (cases x) (auto split: sum.splits)
qed

lemma scan_loop_total:
  "length fs = length pop \<Longrightarrow>
   snd (snd (scan_loop pop fs (cbf, cbi, tot))) = foldl jadd tot fs"
proof (induction pop arbitrary: fs cbf cbi tot)
  case Nil
  then show ?case by simp
next
  case (Cons x pop)
  then obtain f fs' where fs: "fs = f # fs'" "length fs' = length pop"
    by (cases fs) auto
  show ?case
    using Cons.IH [OF fs(2)] by (simp add: fs)
qed

lemma jgt_not_NaN: "jgt a b \<Longrightarrow> a \<noteq> NaN \<and> b \<noteq> NaN \<and> a \<noteq> NegInf"
  by (cases a; cases b) simp_all

lemma scan_loop_best:
  "length fs = length pop \<Longrightarrow> scan_loop pop fs (cbf0, cbi0, tot0) = (cbf, cbi, tot) \<Longrightarrow>
   (cbf = cbf0 \<and> cbi = cbi0) \<or> (cbi \<in> set pop \<and> cbf \<noteq> NaN)"
proof (induction pop arbitrary: fs cbf0 cbi0 tot0)
  case Nil
  then show ?case by simp
next
  case (Cons x pop)
  then obtain f fs' where fs: "fs = f # fs'" "length fs' = length pop"
    by (cases fs) auto
  show ?case
  proof (cases "jgt f cbf0")
    case True
    then have "scan_loop pop fs' (f, x, jadd tot0 f) = (cbf, cbi, tot)"
      using Cons.prems(2) by (simp add: fs)
    then have "(cbf = f \<and> cbi = x) \<or> (cbi \<in> set pop \<and> cbf \<noteq> NaN)"
      by (rule Cons.IH [OF fs(2)])
    then show ?thesis
      using jgt_not_NaN [OF True] by auto
  next
    case False
    then have "scan_loop pop fs' (cbf0, cbi0, jadd tot0 f) = (cbf, cbi, tot)"
      using Cons.prems(2) by (simp add: fs)
    then have "(cbf = cbf0 \<and> cbi = cbi0) \<or> (cbi \<in> set pop \<and> cbf \<noteq> NaN)"
      by (rule Cons.IH [OF fs(2)])
    then show ?thesis by auto
  qed
qed

lemma mutate_with_rate_props:
  assumes "admissible L T x"
  shows "\<exists>y pos1. mutate_with_rate rnd pos rate x = Inr (y, pos1) \<and> admissible L T y"
proof -
  obtain c where x: "x = Some c"
    using assms by (cases x) (simp_all add: admissible_def)
  obtain m pos1 where "mutate rnd (pos + 1) (Some c) = Inr (m, pos1)"
      "length m = length c" "sum_list m = sum_list c"
    using mutate_props [of rnd "pos + 1" c] by blast
  then show ?thesis
    using assms x by (simp add: mutate_with_rate_def admissible_Some del: mutate.simps)
qed


lemma reproduce_step_props:
  assumes pop: "pop \<noteq> []" "\<forall>x \<in> set pop. admissible L T x"
    and fits: "length fits = length pop" "\<forall>f \<in> set fits. jgt f NegInf"
    and tsize: "1 \<le> tournamentSize S"
  shows "\<exists>pushed2 o1 pos1.
           reproduce_step S T rnd pop fits n pos = Inr (pushed2, o1, pos1) \<and>
           (\<forall>x \<in> set pushed2. admissible L T x) \<and> admissible L T o1"
proof -
  obtain parent1 pos1 where s1:
      "tournamentSelection rnd pos pop fits (tournamentSize S) = (parent1, pos1)"
    by (cases "tournamentSelection rnd pos pop fits (tournamentSize S)")
  have "parent1 \<in> set pop"
    using tournamentSelection_member [OF pop(1) fits tsize, of rnd pos] s1 by simp
  then have a1: "admissible L T parent1"
    using pop(2) by blast
  show ?thesis
  proof (cases "random_below (rnd pos1) (crossoverRate S)")
    case False
    obtain y pos2 where "mutate_with_rate rnd (pos1 + 1) (mutationRate S) parent1 = Inr (y, pos2)"
        "admissible L T y"
      using mutate_with_rate_props [OF a1] by blast
    then show ?thesis
      using s1 False by (simp add: reproduce_step_def)
  next
    case True
    obtain parent2 pos2 where s2:
        "tournamentSelection rnd (pos1 + 1) pop fits (tournamentSize S) = (parent2, pos2)"
      by (cases "tournamentSelection rnd (pos1 + 1) pop fits (tournamentSize S)")
    have "parent2 \<in> set pop"
      using tournamentSelection_member [OF pop(1) fits tsize, of rnd "pos1 + 1"] s2 by simp
    then have a2: "admissible L T parent2"
      using pop(2) by blast
    obtain p1 p2 where p: "parent1 = Some p1" "parent2 = Some p2"
      using a1 a2 by (cases parent1; cases parent2) (simp_all add: admissible_def)
    obtain c1 c2 pos3 where c: "crossover rnd pos2 parent1 parent2 T = Inr ((c1, c2), pos3)"
        "admissible L T (Some c1)" "admissible L T (Some c2)"
      using crossover_props [of L T p1 p2 rnd pos2] a1 a2 p by blast
    obtain y2 pos4 where m2:
        "mutate_with_rate rnd pos3 (mutationRate S) (Some c2) = Inr (y2, pos4)"
        "admissible L T y2"
      using mutate_with_rate_props [OF c(3)] by blast
    obtain y1 pos5 where m1:
        "mutate_with_rate rnd pos4 (mutationRate S) (Some c1) = Inr (y1, pos5)"
        "admissible L T y1"
      using mutate_with_rate_props [OF c(2)] by blast
    show ?thesis
      using s1 True s2 c(1) m2 m1 by (simp add: reproduce_step_def)
  qed
qed

lemma reproduce_props:
  "pop \<noteq> [] \<Longrightarrow> \<forall>x \<in> set pop. admissible L T x \<Longrightarrow> length fits = length pop \<Longrightarrow>
   \<forall>f \<in> set fits. jgt f NegInf \<Longrightarrow> 1 \<le> tournamentSize S \<Longrightarrow>
   \<forall>x \<in> set np. admissible L T x \<Longrightarrow>
   \<exists>np1 pos1. reproduce S T rnd pop fits np pos = Inr (np1, pos1) \<and>
     (\<forall>x \<in> set np1. admissible L T x)"
proof (induction S T rnd pop fits np pos rule: reproduce.induct)
  case (1 S T rnd pop fits np pos)
  show ?case
  proof (cases "int (length np) < populationSize S")
    case False
    then show ?thesis
      using "1.prems" by (subst reproduce.simps) simp
  next
    case True
    obtain pushed2 o1 pos1 where
      step: "reproduce_step S T rnd pop fits (length np) pos = Inr (pushed2, o1, pos1)"
      and adm: "\<forall>x \<in> set pushed2. admissible L T x" "admissible L T o1"
      using reproduce_step_props [OF "1.prems"(1-5), of rnd "length np" pos] by blast
    have "\<forall>x \<in> set (np @ pushed2 @ [o1]). admissible L T x"
      using "1.prems"(6) adm by auto
    then have "\<exists>np1 pos2. reproduce S T rnd pop fits (np @ pushed2 @ [o1]) pos1 = Inr (np1, pos2) \<and>
        (\<forall>x \<in> set np1. admissible L T x)"
      using "1.IH" [OF True step refl refl "1.prems"(1-5)] by blast
    then show ?thesis
      using True step by (subst reproduce.simps) simp
  qed
qed

lemma reproduce_length:
  "reproduce S T rnd pop fits np pos = Inr (np1, pos1) \<Longrightarrow>
   populationSize S \<le> int (length np1) \<and> length np \<le> length np1"
proof (induction S T rnd pop fits np pos rule: reproduce.induct)
  case (1 S T rnd pop fits np pos)
  show ?case
  proof (cases "int (length np) < populationSize S")
    case False
    then show ?thesis
      using "1.prems" by (subst (asm) reproduce.simps) simp
  next
    case True
    then obtain pushed2 o1 pos2 where
      step: "reproduce_step S T rnd pop fits (length np) pos = Inr (pushed2, o1, pos2)"
      and rest: "reproduce S T rnd pop fits (np @ pushed2 @ [o1]) pos2 = Inr (np1, pos1)"
      using "1.prems" by (subst (asm) reproduce.simps) (auto split: sum.splits)
    show ?thesis
      using "1.IH" [OF True step refl refl rest] by simp
  qed
qed

lemma slice0_length:
  "0 \<le> e \<Longrightarrow> e \<le> int (length xs) \<Longrightarrow> length (slice0 xs e) = nat e"
  by (simp add: slice0_def)

lemma slice0_subset: "set (slice0 xs e) \<subseteq> set xs"
  by (auto simp: slice0_def dest: in_set_takeD)


lemma generation_step_eq:
  assumes "fitnesses_of (w1 P) (w2 P) (population st) = Inr fits"
    and "scan_loop (population st) fits (NegInf, None, Fin 0) = (cbf, cbi, tot)"
    and "best = (if jgt cbf (bestFitnessEver st) then cbi else bestEver st)"
    and "bestFit = (if jgt cbf (bestFitnessEver st) then cbf else bestFitnessEver st)"
  shows "generation_step P S rnd gen st =
     (case reproduce S (totalBuffers P) rnd (population st) fits [best] (position st) of
        Inl e \<Rightarrow> Inl e
      | Inr (np, pos1) \<Rightarrow>
          Inr (\<lparr>population = slice0 np (populationSize S), bestEver = best,
                 bestFitnessEver = bestFit, position = pos1\<rparr>,
               \<lparr>generation = gen + 1, bestFitness_progress = bestFit,
                 avgFitness = jdiv_length tot (length (slice0 np (populationSize S)))\<rparr>))"
  using assms by (simp add: generation_step_def Let_def split: sum.splits)

lemma generation_step_InrD:
  assumes "generation_step P S rnd gen st = Inr (st1, progress)"
  shows "\<exists>fits cbf cbi tot np pos1.
     fitnesses_of (w1 P) (w2 P) (population st) = Inr fits \<and>
     scan_loop (population st) fits (NegInf, None, Fin 0) = (cbf, cbi, tot) \<and>
     reproduce S (totalBuffers P) rnd (population st) fits
       [if jgt cbf (bestFitnessEver st) then cbi else bestEver st] (position st) = Inr (np, pos1) \<and>
     st1 = \<lparr>population = slice0 np (populationSize S),
            bestEver = (if jgt cbf (bestFitnessEver st) then cbi else bestEver st),
            bestFitnessEver = (if jgt cbf (bestFitnessEver st) then cbf else bestFitnessEver st),
            position = pos1\<rparr> \<and>
     progress = \<lparr>generation = gen + 1,
            bestFitness_progress = (if jgt cbf (bestFitnessEver st) then cbf else bestFitnessEver st),
            avgFitness = jdiv_length tot (length (slice0 np (populationSize S)))\<rparr>"
proof -
  obtain fits where f: "fitnesses_of (w1 P) (w2 P) (population st) = Inr fits"
    using assms by (cases "fitnesses_of (w1 P) (w2 P) (population st)")
      (simp_all add: generation_step_def)
  obtain cbf cbi tot where sc: "scan_loop (population st) fits (NegInf, None, Fin 0) = (cbf, cbi, tot)"
    by (cases "scan_loop (population st) fits (NegInf, None, Fin 0)")
  show ?thesis
    using assms generation_step_eq [OF f sc refl refl, of S rnd gen] f sc
    by (auto split: sum.splits)
qed


lemma jge_refl: "a \<noteq> NaN \<Longrightarrow> jge a a"
  by (cases a) simp_all

lemma jgt_imp_jge: "jgt a b \<Longrightarrow> jge a b"
  by (cases a; cases b) simp_all

lemma jge_trans: "jge a b \<Longrightarrow> jge b c \<Longrightarrow> jge a c"
  by (cases a; cases b; cases c) auto

lemma jge_not_NaN: "jge a b \<Longrightarrow> a \<noteq> NaN \<and> b \<noteq> NaN"
  by (cases a; cases b) simp_all

lemma generation_step_best:
  assumes "generation_step P S rnd gen st = Inr (st1, progress)"
    and "bestFitnessEver st \<noteq> NaN"
  shows "bestFitness_progress progress = bestFitnessEver st1 \<and>
         jge (bestFitnessEver st1) (bestFitnessEver st) \<and> generation progress = gen + 1"
proof -
  obtain cbf where
    "bestFitnessEver st1 = (if jgt cbf (bestFitnessEver st) then cbf else bestFitnessEver st)"
    "bestFitness_progress progress =
       (if jgt cbf (bestFitnessEver st) then cbf else bestFitnessEver st)"
    "generation progress = gen + 1"
    using generation_step_InrD [OF assms(1)] by auto
  then show ?thesis
    using assms(2) by (auto simp: jge_refl jgt_imp_jge)
qed

lemma generation_step_avg:
  assumes "generation_step P S rnd gen st = Inr (st1, progress)"
    and "1 \<le> populationSize S"
  shows "length (population st1) = nat (populationSize S) \<and>
         (\<exists>fits. fitnesses_of (w1 P) (w2 P) (population st) = Inr fits \<and>
            avgFitness progress =
              jdiv_length (foldl jadd (Fin 0) fits) (nat (populationSize S)))"
proof -
  obtain fits cbf cbi tot np pos1 best where
    f: "fitnesses_of (w1 P) (w2 P) (population st) = Inr fits"
    and sc: "scan_loop (population st) fits (NegInf, None, Fin 0) = (cbf, cbi, tot)"
    and r: "reproduce S (totalBuffers P) rnd (population st) fits [best] (position st)
              = Inr (np, pos1)"
    and st1: "population st1 = slice0 np (populationSize S)"
    and pr: "avgFitness progress = jdiv_length tot (length (slice0 np (populationSize S)))"
    using generation_step_InrD [OF assms(1)] by auto
  have "populationSize S \<le> int (length np)"
    using reproduce_length [OF r] by simp
  then have len: "length (slice0 np (populationSize S)) = nat (populationSize S)"
    using assms(2) by (intro slice0_length) simp_all
  have "length fits = length (population st)"
    using fitnesses_of_Inr [OF f] by simp
  then have "tot = foldl jadd (Fin 0) fits"
    using scan_loop_total [of fits "population st" NegInf None "Fin 0"] sc by simp
  then show ?thesis
    using f st1 pr len by simp
qed

lemma ga_loop_step:
  "gen < generations S \<Longrightarrow> generation_step P S rnd gen st = Inr (st1, progress) \<Longrightarrow>
   ga_loop P S rnd gen st =
     ((st, progress) # fst (ga_loop P S rnd (gen + 1) st1),
      snd (ga_loop P S rnd (gen + 1) st1))"
  by (subst ga_loop.simps) (simp add: case_prod_beta)

lemma ga_loop_fail:
  "gen < generations S \<Longrightarrow> generation_step P S rnd gen st = Inl e \<Longrightarrow>
   ga_loop P S rnd gen st = ([], Inl e)"
  by (subst ga_loop.simps) simp

lemma ga_loop_best:
  "bestFitnessEver st \<noteq> NaN \<Longrightarrow>
   sorted_wrt (\<lambda>a b. jge (bestFitness_progress b) (bestFitness_progress a))
     (map snd (fst (ga_loop P S rnd gen st))) \<and>
   (\<forall>p \<in> set (map snd (fst (ga_loop P S rnd gen st))).
      jge (bestFitness_progress p) (bestFitnessEver st)) \<and>
   (\<forall>stf. snd (ga_loop P S rnd gen st) = Inr stf \<longrightarrow>
      jge (bestFitnessEver stf) (bestFitnessEver st) \<and>
      (\<forall>p \<in> set (map snd (fst (ga_loop P S rnd gen st))).
         jge (bestFitnessEver stf) (bestFitness_progress p)))"
proof (induction P S rnd gen st rule: ga_loop.induct)
  case (1 P S rnd gen st)
  show ?case
  proof (cases "gen < generations S")
    case False
    then show ?thesis
      using "1.prems" by (simp add: ga_loop_done jge_refl)
  next
    case True
    show ?thesis
    proof (cases "generation_step P S rnd gen st")
      case (Inl e)
      then show ?thesis
        using True by (simp add: ga_loop_fail)
    next
      case (Inr b)
      obtain st1 progress where b: "b = (st1, progress)"
        by (cases b)
      have step: "generation_step P S rnd gen st = Inr (st1, progress)"
        using Inr b by simp
      have pr: "bestFitness_progress progress = bestFitnessEver st1"
        and up: "jge (bestFitnessEver st1) (bestFitnessEver st)"
        using generation_step_best [OF step "1.prems"] by simp_all
      have "bestFitnessEver st1 \<noteq> NaN"
        using jge_not_NaN [OF up] by simp
      then have IH:
        "sorted_wrt (\<lambda>a b. jge (bestFitness_progress b) (bestFitness_progress a))
           (map snd (fst (ga_loop P S rnd (gen + 1) st1)))"
        "\<forall>p \<in> set (map snd (fst (ga_loop P S rnd (gen + 1) st1))).
           jge (bestFitness_progress p) (bestFitnessEver st1)"
        "\<forall>stf. snd (ga_loop P S rnd (gen + 1) st1) = Inr stf \<longrightarrow>
           jge (bestFitnessEver stf) (bestFitnessEver st1) \<and>
           (\<forall>p \<in> set (map snd (fst (ga_loop P S rnd (gen + 1) st1))).
              jge (bestFitnessEver stf) (bestFitness_progress p))"
        using "1.IH" [OF True Inr b [symmetric]] by simp_all
      have rest: "\<forall>p \<in> set (map snd (fst (ga_loop P S rnd (gen + 1) st1))).
           jge (bestFitness_progress p) (bestFitnessEver st)"
        using IH(2) up jge_trans by blast
      have final: "\<forall>stf. snd (ga_loop P S rnd (gen + 1) st1) = Inr stf \<longrightarrow>
           jge (bestFitnessEver stf) (bestFitnessEver st)"
        using IH(3) up jge_trans by blast
      show ?thesis
        unfolding ga_loop_step [OF True step]
        using IH pr up rest final by simp
    qed
  qed
qed

lemma ga_loop_avg:
  "1 \<le> populationSize S \<Longrightarrow> length (population st) = nat (populationSize S) \<Longrightarrow>
   \<forall>x \<in> set (fst (ga_loop P S rnd gen st)).
     length (population (fst x)) = nat (populationSize S) \<and>
     (\<exists>fits. fitnesses_of (w1 P) (w2 P) (population (fst x)) = Inr fits \<and>
        avgFitness (snd x) = jdiv_length (foldl jadd (Fin 0) fits) (nat (populationSize S)))"
proof (induction P S rnd gen st rule: ga_loop.induct)
  case (1 P S rnd gen st)
  show ?case
  proof (cases "gen < generations S")
    case False
    then show ?thesis
      by (simp add: ga_loop_done)
  next
    case True
    show ?thesis
    proof (cases "generation_step P S rnd gen st")
      case (Inl e)
      then show ?thesis
        using True by (simp add: ga_loop_fail)
    next
      case (Inr b)
      obtain st1 progress where b: "b = (st1, progress)"
        by (cases b)
      have step: "generation_step P S rnd gen st = Inr (st1, progress)"
        using Inr b by simp
      have here: "length (population st1) = nat (populationSize S)"
        "\<exists>fits. fitnesses_of (w1 P) (w2 P) (population st) = Inr fits \<and>
           avgFitness progress = jdiv_length (foldl jadd (Fin 0) fits) (nat (populationSize S))"
        using generation_step_avg [OF step "1.prems"(1)] by simp_all
      have "\<forall>x \<in> set (fst (ga_loop P S rnd (gen + 1) st1)).
          length (population (fst x)) = nat (populationSize S) \<and>
          (\<exists>fits. fitnesses_of (w1 P) (w2 P) (population (fst x)) = Inr fits \<and>
             avgFitness (snd x) = jdiv_length (foldl jadd (Fin 0) fits) (nat (populationSize S)))"
        using "1.IH" [OF True Inr b [symmetric] "1.prems"(1) here(1)] .
      then show ?thesis
        using here(2) "1.prems"(2) by (simp add: ga_loop_step [OF True step])
    qed
  qed
qed

section \<open>Lemmas on whole runs\<close>

text \<open>The example runs, evaluated.\<close>

lemmas run_simps = initial_state_def initializePopulation_def createIndividual_def
  createIndividual_loop.simps random_index_zero cell_def generation_step_def
  calculateFitness_def jsub_def reproduce.simps reproduce_step_def tournamentSelection_def
  random_below_def mutate_with_rate_def repair_def repair_loop.simps slice0_def Let_def
  ga_loop.simps runGA_trace_def numeral_2_eq_2

lemma example_trace:
  "runGA_trace example_params example_settings zero_draws =
     ([(\<lparr>population = [Some [1, 0], Some [1, 0]], bestEver = Some [1, 0],
           bestFitnessEver = NegInf, position = 2\<rparr>,
        \<lparr>generation = 1, bestFitness_progress = Fin (predictThroughput [1, 0] - 1), avgFitness = Fin (predictThroughput [1, 0] - 1)\<rparr>),
       (\<lparr>population = [Some [1, 0], Some [1, 0]], bestEver = Some [1, 0],
           bestFitnessEver = Fin (predictThroughput [1, 0] - 1), position = 12\<rparr>,
        \<lparr>generation = 2, bestFitness_progress = Fin (predictThroughput [1, 0] - 1), avgFitness = Fin (predictThroughput [1, 0] - 1)\<rparr>)],
      Inr \<lparr>population = [Some [1, 0], Some [1, 0]], bestEver = Some [1, 0],
            bestFitnessEver = Fin (predictThroughput [1, 0] - 1), position = 22\<rparr>)"
  by (simp add: example_params_def example_settings_def zero_draws_def run_simps)

lemma example_run:
  "runGA example_params example_settings zero_draws =
     ([\<lparr>generation = 1, bestFitness_progress = Fin (predictThroughput [1, 0] - 1), avgFitness = Fin (predictThroughput [1, 0] - 1)\<rparr>,
       \<lparr>generation = 2, bestFitness_progress = Fin (predictThroughput [1, 0] - 1), avgFitness = Fin (predictThroughput [1, 0] - 1)\<rparr>],
      Inr \<lparr>bestAllocation = [1, 0], predictedThroughput = predictThroughput [1, 0],
            totalBuffersUsed = 1, bestFitness = Fin (predictThroughput [1, 0] - 1)\<rparr>)"
  by (simp add: runGA_def example_trace final_result_def)
    (simp add: example_params_def)

lemma no_tournament_trace:
  "runGA_trace example_params no_tournament_settings zero_draws =
     ([(\<lparr>population = [Some [1, 0], Some [1, 0]], bestEver = Some [1, 0],
           bestFitnessEver = NegInf, position = 2\<rparr>,
        \<lparr>generation = 1, bestFitness_progress = Fin (predictThroughput [1, 0] - 1), avgFitness = Fin (predictThroughput [1, 0] - 1)\<rparr>)],
      Inr \<lparr>population = [Some [1, 0], None], bestEver = Some [1, 0],
            bestFitnessEver = Fin (predictThroughput [1, 0] - 1), position = 4\<rparr>)"
  by (simp add: example_params_def no_tournament_settings_def zero_draws_def run_simps)

lemma no_tournament_run:
  "runGA example_params (no_tournament_settings\<lparr>generations := 2\<rparr>) zero_draws =
     ([\<lparr>generation = 1, bestFitness_progress = Fin (predictThroughput [1, 0] - 1), avgFitness = Fin (predictThroughput [1, 0] - 1)\<rparr>],
      Inl TypeError)"
  by (simp add: runGA_def example_params_def no_tournament_settings_def zero_draws_def run_simps)

lemma no_population_run:
  "runGA example_params (example_settings\<lparr>populationSize := 0\<rparr>) zero_draws =
     ([\<lparr>generation = 1, bestFitness_progress = NegInf, avgFitness = NaN\<rparr>,
       \<lparr>generation = 2, bestFitness_progress = NegInf, avgFitness = NaN\<rparr>],
      Inl TypeError)"
  by (simp add: runGA_def example_params_def example_settings_def zero_draws_def run_simps
        final_result_def)

lemma nan_weight_run:
  "runGA (example_params\<lparr>w1 := NaN\<rparr>)
         (example_settings\<lparr>mutationRate := Fin 0, crossoverRate := Fin 0\<rparr>) zero_draws =
     ([\<lparr>generation = 1, bestFitness_progress = NegInf, avgFitness = NaN\<rparr>],
      Inl TypeError)"
  by (simp add: runGA_def example_params_def example_settings_def zero_draws_def run_simps)


lemma nan_weight_trace:
  "runGA_trace (example_params\<lparr>w1 := NaN\<rparr>)
     (example_settings\<lparr>generations := 1, mutationRate := Fin 0, crossoverRate := Fin 0\<rparr>)
     zero_draws =
     ([(\<lparr>population = [Some [1, 0], Some [1, 0]], bestEver = Some [1, 0],
           bestFitnessEver = NegInf, position = 2\<rparr>,
        \<lparr>generation = 1, bestFitness_progress = NegInf, avgFitness = NaN\<rparr>)],
      Inr \<lparr>population = [Some [1, 0], None], bestEver = Some [1, 0],
            bestFitnessEver = NegInf, position = 5\<rparr>)"
  by (simp add: example_params_def example_settings_def zero_draws_def run_simps)

lemma initial_state_inv:
  assumes "2 \<le> numStations P" and "1 \<le> populationSize S"
  shows "ga_inv P S (initial_state P S rnd)"
proof -
  have L: "0 < numStations P - 1"
    using assms(1) by simp
  let ?pop = "fst (initializePopulation rnd 0 (populationSize S) (numStations P - 1) (totalBuffers P))"
  have pop: "length ?pop = nat (populationSize S)"
    "\<forall>x \<in> set ?pop. admissible (nat (numStations P - 1)) (totalBuffers P) x"
    using initializePopulation_props [OF L, of rnd 0 "populationSize S" "totalBuffers P"]
    by simp_all
  have "0 < length ?pop"
    using pop(1) assms(2) by simp
  then have "cell ?pop 0 \<in> set ?pop"
    by (rule cell_member)
  then have "admissible (nat (numStations P - 1)) (totalBuffers P) (cell ?pop 0)"
    using pop(2) by blast
  then show ?thesis
    using pop by (simp add: ga_inv_def initial_state_def case_prod_beta)
qed

lemma admissible_valid:
  "2 \<le> numStations P \<Longrightarrow> 0 \<le> totalBuffers P \<Longrightarrow>
   admissible (nat (numStations P - 1)) (totalBuffers P) (Some c) = valid_chromosome P c"
  by (auto simp: admissible_Some valid_chromosome_def)

lemma admissible_valid_population:
  assumes "2 \<le> numStations P" and "0 \<le> totalBuffers P"
    and "\<forall>x \<in> set pop. admissible (nat (numStations P - 1)) (totalBuffers P) x"
  shows "valid_population P pop"
  unfolding valid_population_def list_all_iff
proof
  fix x
  assume "x \<in> set pop"
  then have "admissible (nat (numStations P - 1)) (totalBuffers P) x"
    using assms(3) by blast
  then show "case x of None \<Rightarrow> False | Some c \<Rightarrow> valid_chromosome P c"
    using admissible_valid [OF assms(1,2)] by (cases x) (simp_all add: admissible_None)
qed

lemma final_result_inv:
  assumes "ga_inv P S st"
  shows "\<exists>result. final_result st = Inr result \<and> bestFitness result = bestFitnessEver st"
proof -
  obtain c where "bestEver st = Some c"
    using assms by (cases "bestEver st") (simp_all add: ga_inv_def admissible_None)
  then show ?thesis
    by (simp add: final_result_def)
qed

lemma runGA_progress:
  "2 \<le> numStations P \<Longrightarrow> fst (runGA P S rnd) = map snd (fst (runGA_trace P S rnd))"
  by (simp add: runGA_def case_prod_beta)

lemma runGA_outcome:
  "2 \<le> numStations P \<Longrightarrow>
   snd (runGA P S rnd) =
     (case snd (runGA_trace P S rnd) of Inl e \<Rightarrow> Inl e | Inr st \<Rightarrow> final_result st)"
  by (simp add: runGA_def case_prod_beta)

section \<open>Lemmas on the loop for an arbitrary fitness function\<close>

lemma fitnesses_by_greater:
  assumes "\<forall>x \<in> set pop. admissible L T x"
    and "\<forall>c. admissible L T (Some c) \<longrightarrow> jgt (fit c) NegInf"
  shows "\<exists>fs. fitnesses_by fit pop = Inr fs \<and> length fs = length pop \<and>
           (\<forall>f \<in> set fs. jgt f NegInf)"
  using assms(1)
proof (induction pop)
  case Nil
  then show ?case by simp
next
  case (Cons x pop)
  have ax: "admissible L T x"
    using Cons.prems by simp
  then obtain c where x: "x = Some c"
    by (cases x) (simp_all add: admissible_None)
  have "jgt (fit c) NegInf"
    using ax x assms(2) by blast
  moreover obtain fs where "fitnesses_by fit pop = Inr fs" "length fs = length pop"
      "\<forall>f \<in> set fs. jgt f NegInf"
    using Cons by auto
  ultimately show ?case
    using x by simp
qed

lemma generation_step_by_eq:
  assumes "fitnesses_by fit (population st) = Inr fits"
    and "scan_loop (population st) fits (NegInf, None, Fin 0) = (cbf, cbi, tot)"
    and "best = (if jgt cbf (bestFitnessEver st) then cbi else bestEver st)"
    and "bestFit = (if jgt cbf (bestFitnessEver st) then cbf else bestFitnessEver st)"
  shows "generation_step_by fit P S rnd gen st =
     (case reproduce S (totalBuffers P) rnd (population st) fits [best] (position st) of
        Inl e \<Rightarrow> Inl e
      | Inr (np, pos1) \<Rightarrow>
          Inr (\<lparr>population = slice0 np (populationSize S), bestEver = best,
                 bestFitnessEver = bestFit, position = pos1\<rparr>,
               \<lparr>generation = gen + 1, bestFitness_progress = bestFit,
                 avgFitness = jdiv_length tot (length (slice0 np (populationSize S)))\<rparr>))"
  using assms by (simp add: generation_step_by_def Let_def split: sum.splits)

lemma generation_step_by_inv:
  assumes inv: "ga_inv P S st"
    and sizes: "1 \<le> populationSize S" "1 \<le> tournamentSize S"
    and fit: "\<forall>c. admissible (nat (numStations P - 1)) (totalBuffers P) (Some c) \<longrightarrow>
                jgt (fit c) NegInf"
  shows "\<exists>st1 progress. generation_step_by fit P S rnd gen st = Inr (st1, progress) \<and>
           ga_inv P S st1 \<and> generation progress = gen + 1"
proof -
  let ?L = "nat (numStations P - 1)" and ?T = "totalBuffers P"
  have adm: "\<forall>x \<in> set (population st). admissible ?L ?T x"
    and best0: "admissible ?L ?T (bestEver st)"
    and len: "length (population st) = nat (populationSize S)"
    using inv by (simp_all add: ga_inv_def)
  have nonempty: "population st \<noteq> []"
    using len sizes(1) by auto
  obtain fits where f: "fitnesses_by fit (population st) = Inr fits"
    and fl: "length fits = length (population st)" and fg: "\<forall>f \<in> set fits. jgt f NegInf"
    using fitnesses_by_greater [OF adm fit] by blast
  obtain cbf cbi tot where sc: "scan_loop (population st) fits (NegInf, None, Fin 0) = (cbf, cbi, tot)"
    by (cases "scan_loop (population st) fits (NegInf, None, Fin 0)")
  define best where "best = (if jgt cbf (bestFitnessEver st) then cbi else bestEver st)"
  have ab: "admissible ?L ?T best"
  proof (cases "jgt cbf (bestFitnessEver st)")
    case True
    then have "cbf \<noteq> NegInf"
      using jgt_not_NaN by blast
    then have "cbi \<in> set (population st)"
      using scan_loop_best [OF fl sc] by auto
    then show ?thesis
      using adm True by (simp add: best_def)
  next
    case False
    then show ?thesis
      using best0 by (simp add: best_def)
  qed
  then have "\<forall>x \<in> set [best]. admissible ?L ?T x"
    by simp
  then obtain np pos1 where
    r: "reproduce S ?T rnd (population st) fits [best] (position st) = Inr (np, pos1)"
    and npa: "\<forall>x \<in> set np. admissible ?L ?T x"
    using reproduce_props [OF nonempty adm fl fg sizes(2)] by blast
  have "populationSize S \<le> int (length np)"
    using reproduce_length [OF r] by simp
  then have "length (slice0 np (populationSize S)) = nat (populationSize S)"
    using sizes(1) by (intro slice0_length) simp_all
  moreover have "\<forall>x \<in> set (slice0 np (populationSize S)). admissible ?L ?T x"
    using npa slice0_subset [of np "populationSize S"] by blast
  ultimately show ?thesis
    using generation_step_by_eq [OF f sc best_def refl, of P S rnd gen] r ab
    by (simp add: ga_inv_def)
qed

lemma ga_loop_by_done:
  "\<not> gen < generations S \<Longrightarrow> ga_loop_by fit P S rnd gen st = ([], Inr st)"
  by (subst ga_loop_by.simps) simp

lemma ga_loop_by_step:
  "gen < generations S \<Longrightarrow> generation_step_by fit P S rnd gen st = Inr (st1, progress) \<Longrightarrow>
   ga_loop_by fit P S rnd gen st =
     ((st, progress) # fst (ga_loop_by fit P S rnd (gen + 1) st1),
      snd (ga_loop_by fit P S rnd (gen + 1) st1))"
  by (subst ga_loop_by.simps) (simp add: case_prod_beta)

lemma ga_loop_by_inv:
  "ga_inv P S st \<Longrightarrow> 1 \<le> populationSize S \<Longrightarrow> 1 \<le> tournamentSize S \<Longrightarrow>
   \<forall>c. admissible (nat (numStations P - 1)) (totalBuffers P) (Some c) \<longrightarrow> jgt (fit c) NegInf \<Longrightarrow>
   (\<exists>stf. snd (ga_loop_by fit P S rnd gen st) = Inr stf \<and> ga_inv P S stf) \<and>
   (\<forall>x \<in> set (fst (ga_loop_by fit P S rnd gen st)). ga_inv P S (fst x)) \<and>
   map (\<lambda>x. generation (snd x)) (fst (ga_loop_by fit P S rnd gen st)) = [gen + 1..generations S]"
proof (induction fit P S rnd gen st rule: ga_loop_by.induct)
  case (1 fit P S rnd gen st)
  show ?case
  proof (cases "gen < generations S")
    case False
    then show ?thesis
      using "1.prems"(1) by (simp add: ga_loop_by_done)
  next
    case True
    obtain st1 progress where step: "generation_step_by fit P S rnd gen st = Inr (st1, progress)"
      and inv1: "ga_inv P S st1" and g: "generation progress = gen + 1"
      using generation_step_by_inv [OF "1.prems", of rnd gen] by blast
    have IH: "(\<exists>stf. snd (ga_loop_by fit P S rnd (gen + 1) st1) = Inr stf \<and> ga_inv P S stf) \<and>
        (\<forall>x \<in> set (fst (ga_loop_by fit P S rnd (gen + 1) st1)). ga_inv P S (fst x)) \<and>
        map (\<lambda>x. generation (snd x)) (fst (ga_loop_by fit P S rnd (gen + 1) st1))
          = [gen + 1 + 1..generations S]"
      using "1.IH" [OF True step refl inv1 "1.prems"(2-4)] .
    have "[gen + 1..generations S] = (gen + 1) # [gen + 1 + 1..generations S]"
      using True by (simp add: upto_rec1)
    then show ?thesis
      using IH "1.prems"(1) g by (simp add: ga_loop_by_step [OF True step])
  qed
qed

lemma fitnesses_by_model:
  "fitnesses_by (model_fitness P) pop = fitnesses_of (w1 P) (w2 P) pop"
proof (induction pop)
  case Nil
  then show ?case by simp
next
  case (Cons x pop)
  then show ?case
    by (cases x) (simp_all add: model_fitness_def)
qed

lemma generation_step_by_model:
  "generation_step_by (model_fitness P) P S rnd gen st = generation_step P S rnd gen st"
  by (simp add: generation_step_by_def generation_step_def fitnesses_by_model)

lemma ga_loop_by_model:
  "ga_loop_by (model_fitness P) P S rnd gen st = ga_loop P S rnd gen st"
proof (induction P S rnd gen st rule: ga_loop.induct)
  case (1 P S rnd gen st)
  show ?case
  proof (cases "gen < generations S")
    case False
    then show ?thesis
      by (simp add: ga_loop_by_done ga_loop_done)
  next
    case True
    show ?thesis
    proof (cases "generation_step P S rnd gen st")
      case (Inl e)
      then show ?thesis
        using True
        by (subst ga_loop_by.simps, subst ga_loop.simps) (simp add: generation_step_by_model)
    next
      case (Inr b)
      obtain st1 progress where b: "b = (st1, progress)"
        by (cases b)
      have "ga_loop_by (model_fitness P) P S rnd (gen + 1) st1 = ga_loop P S rnd (gen + 1) st1"
        using "1.IH" [OF True Inr b [symmetric]] .
      then show ?thesis
        using True Inr b
        by (subst ga_loop_by.simps, subst ga_loop.simps) (simp add: generation_step_by_model)
    qed
  qed
qed

lemma runGA_trace_by_model:
  "runGA_trace_by (model_fitness P) P S rnd = runGA_trace P S rnd"
  by (simp add: runGA_trace_by_def runGA_trace_def ga_loop_by_model)

lemma runGA_by_model: "runGA_by (model_fitness P) P S rnd = runGA P S rnd"
  by (simp add: runGA_by_def runGA_def runGA_trace_by_model)

lemma runGA_by_progress:
  "2 \<le> numStations P \<Longrightarrow>
   fst (runGA_by fit P S rnd) = map snd (fst (runGA_trace_by fit P S rnd))"
  by (simp add: runGA_by_def case_prod_beta)

lemma runGA_by_outcome:
  "2 \<le> numStations P \<Longrightarrow>
   snd (runGA_by fit P S rnd) =
     (case snd (runGA_trace_by fit P S rnd) of Inl e \<Rightarrow> Inl e | Inr st \<Rightarrow> final_result st)"
  by (simp add: runGA_by_def case_prod_beta)

lemma model_fitness_finite:
  "is_finite (w1 P) \<Longrightarrow> is_finite (w2 P) \<Longrightarrow> jgt (model_fitness P c) NegInf"
  by (simp add: model_fitness_def calculateFitness_finite)

text \<open>
  The premise on the fitness cannot be replaced by one on the weights being finite: for
  \<^verbatim>\<open>w1 = w2 = 2^1023\<close> both products overflow to infinity in double precision and every
  fitness is NaN. With such a fitness the selection returns \<^verbatim>\<open>null\<close>, and a run of two
  generations throws after one record.
\<close>

lemma nan_fitness_run:
  "runGA_by (\<lambda>ind. NaN) example_params
     (example_settings\<lparr>mutationRate := Fin 0, crossoverRate := Fin 0\<rparr>) zero_draws =
     ([\<lparr>generation = 1, bestFitness_progress = NegInf, avgFitness = NaN\<rparr>],
      Inl TypeError)"
  by (simp add: runGA_by_def runGA_trace_by_def generation_step_by_def ga_loop_by.simps
        example_params_def example_settings_def zero_draws_def run_simps)

section \<open>Verified properties\<close>

text \<open>
  C1, as amended: in a run with at least two stations, a number of buffers that is not
  negative and a population of at least one,
  every chromosome made by \<open>createIndividual\<close>, both children that \<open>crossover\<close> with its
  repair makes of valid parents, and the chromosome that \<open>mutate\<close> makes of a valid one
  have \<open>numStations - 1\<close> cells that add up to \<open>totalBuffers\<close>;
  and when moreover the tournament size is at least one and the fitness computed for
  every valid chromosome is greater than negative infinity (so neither negative infinity
  nor NaN), whatever function \<open>fit\<close> computes it, each generation is evaluated on a valid
  population and the run ends with a valid population (every member is a chromosome of
  that length and sum).
\<close>

theorem chromosomes_keep_length_and_sum:
  assumes "2 \<le> numStations P" and "0 \<le> totalBuffers P" and "1 \<le> populationSize S"
  shows "valid_chromosome P
           (fst (createIndividual rnd pos (numStations P - 1) (totalBuffers P))) \<and>
         (\<forall>parent1 parent2.
            valid_chromosome P parent1 \<and> valid_chromosome P parent2 \<longrightarrow>
            (\<exists>child1 child2 pos1.
               crossover rnd pos (Some parent1) (Some parent2) (totalBuffers P)
                 = Inr ((child1, child2), pos1) \<and>
               valid_chromosome P child1 \<and> valid_chromosome P child2)) \<and>
         (\<forall>c. valid_chromosome P c \<longrightarrow>
            (\<exists>mutated pos1. mutate rnd pos (Some c) = Inr (mutated, pos1) \<and>
               valid_chromosome P mutated)) \<and>
         (1 \<le> tournamentSize S \<and> (\<forall>c. valid_chromosome P c \<longrightarrow> jgt (fit c) NegInf) \<longrightarrow>
            (\<forall>x \<in> set (fst (runGA_trace_by fit P S rnd)).
               valid_population P (population (fst x))) \<and>
            (\<exists>st. snd (runGA_trace_by fit P S rnd) = Inr st \<and>
               valid_population P (population st)))"
proof (intro conjI allI impI)
  show "valid_chromosome P
          (fst (createIndividual rnd pos (numStations P - 1) (totalBuffers P)))"
    using createIndividual_props [of "numStations P - 1" rnd pos "totalBuffers P"] assms(1,2)
    by (simp add: valid_chromosome_def)
next
  fix parent1 parent2
  assume "valid_chromosome P parent1 \<and> valid_chromosome P parent2"
  then have "admissible (nat (numStations P - 1)) (totalBuffers P) (Some parent1)"
    "admissible (nat (numStations P - 1)) (totalBuffers P) (Some parent2)"
    by (simp_all add: admissible_valid [OF assms(1,2)])
  then show "\<exists>child1 child2 pos1.
      crossover rnd pos (Some parent1) (Some parent2) (totalBuffers P)
        = Inr ((child1, child2), pos1) \<and>
      valid_chromosome P child1 \<and> valid_chromosome P child2"
    using crossover_props [of "nat (numStations P - 1)" "totalBuffers P" parent1 parent2 rnd pos]
    by (simp only: admissible_valid [OF assms(1,2)])
next
  fix c
  assume "valid_chromosome P c"
  then show "\<exists>mutated pos1. mutate rnd pos (Some c) = Inr (mutated, pos1) \<and>
      valid_chromosome P mutated"
    using mutate_props [of rnd pos c] by (auto simp: valid_chromosome_def)
next
  assume run: "1 \<le> tournamentSize S \<and> (\<forall>c. valid_chromosome P c \<longrightarrow> jgt (fit c) NegInf)"
  then have fit: "\<forall>c. admissible (nat (numStations P - 1)) (totalBuffers P) (Some c) \<longrightarrow>
      jgt (fit c) NegInf"
    by (simp add: admissible_valid [OF assms(1,2)])
  have inv: "(\<exists>stf. snd (runGA_trace_by fit P S rnd) = Inr stf \<and> ga_inv P S stf) \<and>
      (\<forall>x \<in> set (fst (runGA_trace_by fit P S rnd)). ga_inv P S (fst x))"
    unfolding runGA_trace_by_def
    using ga_loop_by_inv [OF initial_state_inv [OF assms(1,3)] assms(3) _ fit, of rnd 0] run
    by blast
  show "\<forall>x \<in> set (fst (runGA_trace_by fit P S rnd)). valid_population P (population (fst x))"
  proof
    fix x
    assume "x \<in> set (fst (runGA_trace_by fit P S rnd))"
    then have "ga_inv P S (fst x)"
      using inv by blast
    then show "valid_population P (population (fst x))"
      using admissible_valid_population [OF assms(1,2)] by (simp add: ga_inv_def)
  qed
  obtain stf where "snd (runGA_trace_by fit P S rnd) = Inr stf" "ga_inv P S stf"
    using inv by blast
  then show "\<exists>st. snd (runGA_trace_by fit P S rnd) = Inr st \<and>
      valid_population P (population st)"
    using admissible_valid_population [OF assms(1,2)] by (simp add: ga_inv_def)
qed

theorem chromosomes_keep_length_and_sum_witness:
  "valid_chromosome example_params (fst (createIndividual zero_draws 0 2 1)) \<and>
   (\<exists>child1 child2 pos1.
      crossover zero_draws 0 (Some [1, 0]) (Some [0, 1]) 1 = Inr ((child1, child2), pos1) \<and>
      valid_chromosome example_params child1 \<and> valid_chromosome example_params child2) \<and>
   (\<exists>mutated pos1. mutate zero_draws 0 (Some [1, 0]) = Inr (mutated, pos1) \<and>
      valid_chromosome example_params mutated) \<and>
   snd (runGA_trace_by (model_fitness example_params) example_params example_settings
          zero_draws) =
     Inr \<lparr>population = [Some [1, 0], Some [1, 0]], bestEver = Some [1, 0],
           bestFitnessEver = Fin (predictThroughput [1, 0] - 1), position = 22\<rparr> \<and>
   valid_population example_params [Some [1, 0], Some [1, 0]]"
proof -
  have v: "valid_chromosome example_params [1, 0]" "valid_chromosome example_params [0, 1]"
    by (simp_all add: valid_chromosome_def example_params_def)
  have h: "2 \<le> numStations example_params" "0 \<le> totalBuffers example_params"
    "1 \<le> populationSize example_settings"
    by (simp_all add: example_params_def example_settings_def)
  have "jgt (model_fitness example_params c) NegInf" for c
    by (rule model_fitness_finite) (simp_all add: example_params_def)
  then have f: "1 \<le> tournamentSize example_settings \<and>
      (\<forall>c. valid_chromosome example_params c \<longrightarrow>
         jgt (model_fitness example_params c) NegInf)"
    by (simp add: example_settings_def)
  note t = chromosomes_keep_length_and_sum
             [OF h, of zero_draws 0 "model_fitness example_params"]
  have "valid_chromosome example_params (fst (createIndividual zero_draws 0 2 1))"
    using t by (simp add: example_params_def)
  moreover have "\<exists>child1 child2 pos1.
      crossover zero_draws 0 (Some [1, 0]) (Some [0, 1]) 1 = Inr ((child1, child2), pos1) \<and>
      valid_chromosome example_params child1 \<and> valid_chromosome example_params child2"
    using t v by (simp add: example_params_def del: crossover.simps)
  moreover have "\<exists>mutated pos1. mutate zero_draws 0 (Some [1, 0]) = Inr (mutated, pos1) \<and>
      valid_chromosome example_params mutated"
    using t v by (simp del: mutate.simps)
  moreover have "valid_population example_params [Some [1, 0], Some [1, 0]]"
    using t f by (simp add: runGA_trace_by_model example_trace)
  ultimately show ?thesis
    by (simp add: runGA_trace_by_model example_trace)
qed

text \<open>
  The claim as stated fails for a tournament of size zero, and for a weight that is NaN:
  the selection returns \<^verbatim>\<open>null\<close>, which, with neither crossover nor mutation, is
  pushed into the new population. After one generation the population has a member that
  is no chromosome.
\<close>

theorem population_member_null_counterexample:
  "2 \<le> numStations example_params \<and> 0 \<le> totalBuffers example_params \<and>
   1 \<le> populationSize no_tournament_settings \<and>
   mutationRate no_tournament_settings = Fin 0 \<and> crossoverRate no_tournament_settings = Fin 0 \<and>
   snd (runGA_trace example_params no_tournament_settings zero_draws) =
     Inr \<lparr>population = [Some [1, 0], None], bestEver = Some [1, 0],
           bestFitnessEver = Fin (predictThroughput [1, 0] - 1), position = 4\<rparr> \<and>
   snd (runGA_trace (example_params\<lparr>w1 := NaN\<rparr>)
          (example_settings\<lparr>generations := 1, mutationRate := Fin 0, crossoverRate := Fin 0\<rparr>)
          zero_draws) =
     Inr \<lparr>population = [Some [1, 0], None], bestEver = Some [1, 0],
           bestFitnessEver = NegInf, position = 5\<rparr> \<and>
   \<not> valid_population example_params [Some [1, 0], None]"
  by (simp add: no_tournament_trace nan_weight_trace valid_population_def)
    (simp add: example_params_def no_tournament_settings_def)

text \<open>
  C2: in every run, the best fitness of the progress records never decreases from one
  record to any later one, and when the run returns a result, the best fitness of the
  result is at least the best fitness of every progress record.
\<close>

theorem bestFitness_never_regresses:
  "sorted_wrt (\<lambda>earlier later. jge (bestFitness_progress later) (bestFitness_progress earlier))
     (fst (runGA P S rnd)) \<and>
   (\<forall>result. snd (runGA P S rnd) = Inr result \<longrightarrow>
      (\<forall>p \<in> set (fst (runGA P S rnd)). jge (bestFitness result) (bestFitness_progress p)))"
proof (cases "2 \<le> numStations P")
  case False
  then show ?thesis
    by (simp add: runGA_def)
next
  case True
  let ?st = "initial_state P S rnd"
  have start: "bestFitnessEver ?st \<noteq> NaN"
    by (simp add: initial_state_def case_prod_beta)
  have best: "sorted_wrt
       (\<lambda>earlier later. jge (bestFitness_progress later) (bestFitness_progress earlier))
       (map snd (fst (runGA_trace P S rnd)))"
    "\<forall>stf. snd (runGA_trace P S rnd) = Inr stf \<longrightarrow>
       (\<forall>p \<in> set (map snd (fst (runGA_trace P S rnd))).
          jge (bestFitnessEver stf) (bestFitness_progress p))"
    unfolding runGA_trace_def using ga_loop_best [OF start, of P S rnd 0] by blast+
  have final: "\<forall>result. snd (runGA P S rnd) = Inr result \<longrightarrow>
      (\<exists>stf. snd (runGA_trace P S rnd) = Inr stf \<and> bestFitness result = bestFitnessEver stf)"
    unfolding runGA_outcome [OF True]
    by (auto simp: final_result_def split: sum.splits option.splits)
  show ?thesis
    unfolding runGA_progress [OF True] using best final
    by (metis (no_types, lifting))
qed

theorem bestFitness_never_regresses_witness:
  "sorted_wrt (\<lambda>earlier later. jge (bestFitness_progress later) (bestFitness_progress earlier))
     [\<lparr>generation = 1, bestFitness_progress = Fin (predictThroughput [1, 0] - 1), avgFitness = Fin (predictThroughput [1, 0] - 1)\<rparr>,
      \<lparr>generation = 2, bestFitness_progress = Fin (predictThroughput [1, 0] - 1), avgFitness = Fin (predictThroughput [1, 0] - 1)\<rparr>] \<and>
   jge (bestFitness \<lparr>bestAllocation = [1, 0], predictedThroughput = predictThroughput [1, 0],
                      totalBuffersUsed = 1, bestFitness = Fin (predictThroughput [1, 0] - 1)\<rparr>)
       (bestFitness_progress
          \<lparr>generation = 2, bestFitness_progress = Fin (predictThroughput [1, 0] - 1), avgFitness = Fin (predictThroughput [1, 0] - 1)\<rparr>)"
  using bestFitness_never_regresses [of example_params example_settings zero_draws]
  by (simp add: example_run)

text \<open>
  C3, as amended: in a run with at least two stations, a population of at least one and a
  tournament size of at least one, in which the fitness computed for every chromosome of
  \<open>numStations - 1\<close> cells that add up to \<open>totalBuffers\<close> (to zero when that is negative)
  is greater than negative infinity, whatever function \<open>fit\<close> computes it, \<open>runGA\<close> with
  \<open>generations = N\<close> yields exactly \<open>N\<close> progress records, whose generation fields are
  1, 2, ..., \<open>N\<close> in this order, and then returns one result.
\<close>

theorem runGA_yields_every_generation:
  assumes "2 \<le> numStations P" and "1 \<le> populationSize S" and "1 \<le> tournamentSize S"
    and "\<forall>c. int (length c) = numStations P - 1 \<and>
             int (sum_list c) = max 0 (totalBuffers P) \<longrightarrow> jgt (fit c) NegInf"
  shows "\<exists>progress result.
           runGA_by fit P S rnd = (progress, Inr result) \<and>
           length progress = nat (generations S) \<and>
           map generation progress = [1..generations S]"
proof -
  have fit: "\<forall>c. admissible (nat (numStations P - 1)) (totalBuffers P) (Some c) \<longrightarrow>
      jgt (fit c) NegInf"
    using assms(1,4) by (simp add: admissible_Some)
  have loop: "(\<exists>stf. snd (runGA_trace_by fit P S rnd) = Inr stf \<and> ga_inv P S stf) \<and>
      map (\<lambda>x. generation (snd x)) (fst (runGA_trace_by fit P S rnd)) = [0 + 1..generations S]"
    unfolding runGA_trace_by_def
    using ga_loop_by_inv [OF initial_state_inv [OF assms(1,2)] assms(2,3) fit, of rnd 0]
    by blast
  then obtain stf where out: "snd (runGA_trace_by fit P S rnd) = Inr stf"
    and inv: "ga_inv P S stf"
    by blast
  obtain result where res: "final_result stf = Inr result"
    using final_result_inv [OF inv] by blast
  have gens: "map generation (fst (runGA_by fit P S rnd)) = [1..generations S]"
    using loop by (simp add: runGA_by_progress [OF assms(1)] comp_def)
  then have "length (map generation (fst (runGA_by fit P S rnd))) = length [1..generations S]"
    by simp
  then have len: "length (fst (runGA_by fit P S rnd)) = nat (generations S)"
    by simp
  have "snd (runGA_by fit P S rnd) = Inr result"
    using out res by (simp add: runGA_by_outcome [OF assms(1)])
  then have "runGA_by fit P S rnd = (fst (runGA_by fit P S rnd), Inr result)"
    by (metis prod.collapse)
  then show ?thesis
    using gens len by blast
qed

theorem runGA_yields_every_generation_witness:
  "\<exists>progress result.
     runGA_by (model_fitness example_params) example_params example_settings zero_draws
       = (progress, Inr result) \<and>
     runGA example_params example_settings zero_draws = (progress, Inr result) \<and>
     length progress = nat (generations example_settings) \<and>
     map generation progress = [1..generations example_settings]"
proof -
  have "jgt (model_fitness example_params c) NegInf" for c
    by (rule model_fitness_finite) (simp_all add: example_params_def)
  then have "\<forall>c. int (length c) = numStations example_params - 1 \<and>
            int (sum_list c) = max 0 (totalBuffers example_params) \<longrightarrow>
            jgt (model_fitness example_params c) NegInf"
    by simp
  then show ?thesis
    using runGA_yields_every_generation
            [of example_params example_settings "model_fitness example_params" zero_draws]
    by (simp add: runGA_by_model) (simp add: example_params_def example_settings_def)
qed

text \<open>
  The claim as stated fails in three runs of two generations with three stations:
  with an empty population the two records are yielded and the result is a
  \<open>TypeError\<close>; with a tournament of size zero, and with a weight that is NaN, the
  second generation throws a \<open>TypeError\<close> after a single record.
\<close>

theorem runGA_throws_counterexample:
  "2 \<le> numStations example_params \<and>
   generations (example_settings\<lparr>populationSize := 0\<rparr>) = 2 \<and>
   runGA example_params (example_settings\<lparr>populationSize := 0\<rparr>) zero_draws =
     ([\<lparr>generation = 1, bestFitness_progress = NegInf, avgFitness = NaN\<rparr>,
       \<lparr>generation = 2, bestFitness_progress = NegInf, avgFitness = NaN\<rparr>],
      Inl TypeError) \<and>
   generations (no_tournament_settings\<lparr>generations := 2\<rparr>) = 2 \<and>
   runGA example_params (no_tournament_settings\<lparr>generations := 2\<rparr>) zero_draws =
     ([\<lparr>generation = 1, bestFitness_progress = Fin (predictThroughput [1, 0] - 1), avgFitness = Fin (predictThroughput [1, 0] - 1)\<rparr>],
      Inl TypeError) \<and>
   numStations (example_params\<lparr>w1 := NaN\<rparr>) = 3 \<and>
   generations (example_settings\<lparr>mutationRate := Fin 0, crossoverRate := Fin 0\<rparr>) = 2 \<and>
   runGA (example_params\<lparr>w1 := NaN\<rparr>)
         (example_settings\<lparr>mutationRate := Fin 0, crossoverRate := Fin 0\<rparr>) zero_draws =
     ([\<lparr>generation = 1, bestFitness_progress = NegInf, avgFitness = NaN\<rparr>],
      Inl TypeError)"
  by (simp add: no_population_run no_tournament_run nan_weight_run)
    (simp add: example_params_def example_settings_def no_tournament_settings_def)

text \<open>
  C4, as amended: for every length \<open>L\<close> of at least one, \<open>predictThroughput\<close> of the
  all-zero vector of length \<open>L\<close> is exactly 50. (The empty vector has throughput 0.)
\<close>

theorem predictThroughput_zero_vector:
  "1 \<le> L \<Longrightarrow> predictThroughput (replicate L 0) = 50"
  by (simp add: predictThroughput_def)

theorem predictThroughput_zero_vector_witness:
  "(1::nat) \<le> 3 \<and> predictThroughput (replicate 3 0) = 50"
  using predictThroughput_zero_vector [of 3] by simp

text \<open>The claim as stated fails at length 0: the empty vector has throughput 0.\<close>

theorem predictThroughput_empty_counterexample:
  "predictThroughput (replicate 0 0) \<noteq> 50"
  by (simp add: predictThroughput_def)

text \<open>
  C5: for parents of equal length \<open>L\<close> of at least two (their cells are counts, hence not
  negative) and a target \<open>T\<close> that is not negative, the repair of each offspring
  terminates with a chromosome (\<open>repair\<close> is a total function and its result is not a
  failure), after at most as many iterations of its loop as the sum of that offspring
  differed from the target before the repair, and each repaired offspring, as returned by
  \<open>crossover\<close>, adds up to the target.
\<close>

theorem crossover_repair_terminates:
  assumes "length parent1 = L" and "length parent2 = L" and "2 \<le> L" and "0 \<le> T"
    and "crossoverPoint = random_index (rnd pos) (L - 1) + 1"
    and "offspring1 = take crossoverPoint parent1 @ drop crossoverPoint parent2"
    and "offspring2 = take crossoverPoint parent2 @ drop crossoverPoint parent1"
  shows "\<exists>child1 pos1 n1 child2 pos2 n2.
           repair rnd L T (pos + 1) offspring1 = Inr (child1, pos1, n1) \<and>
           repair rnd L T pos1 offspring2 = Inr (child2, pos2, n2) \<and>
           crossover rnd pos (Some parent1) (Some parent2) T = Inr ((child1, child2), pos2) \<and>
           n1 \<le> nat \<bar>int (sum_list offspring1) - T\<bar> \<and>
           n2 \<le> nat \<bar>int (sum_list offspring2) - T\<bar> \<and>
           int (sum_list child1) = T \<and> int (sum_list child2) = T"
proof -
  have "random_index (rnd pos) (L - 1) < L - 1"
    using assms(3) by (intro random_index_less) simp
  then have cut: "crossoverPoint \<le> L"
    using assms(5) by simp
  have lo: "length offspring1 = L" "length offspring2 = L"
    using cut assms(1,2,6,7) by simp_all
  have L: "0 < L"
    using assms(3) by simp
  obtain child1 pos1 n1 where r1: "repair rnd L T (pos + 1) offspring1 = Inr (child1, pos1, n1)"
    and c1: "int (sum_list child1) = max 0 T" "n1 \<le> nat \<bar>int (sum_list offspring1) - T\<bar>"
    using repair_props [OF L lo(1), of rnd T "pos + 1"] by blast
  obtain child2 pos2 n2 where r2: "repair rnd L T pos1 offspring2 = Inr (child2, pos2, n2)"
    and c2: "int (sum_list child2) = max 0 T" "n2 \<le> nat \<bar>int (sum_list offspring2) - T\<bar>"
    using repair_props [OF L lo(2), of rnd T pos1] by blast
  have "\<not> length parent1 \<le> 1"
    using assms(1,3) by simp
  then have "crossover rnd pos (Some parent1) (Some parent2) T = Inr ((child1, child2), pos2)"
    using assms(1,2,5,6,7) r1 r2 by (simp add: Let_def)
  then show ?thesis
    using r1 r2 c1 c2 assms(4) by (simp add: max_def)
qed

theorem crossover_repair_terminates_witness:
  "\<exists>child1 pos1 n1 child2 pos2 n2.
     repair (\<lambda>i. Draw 0 0) 2 3 1 [3, 2] = Inr (child1, pos1, n1) \<and>
     repair (\<lambda>i. Draw 0 0) 2 3 pos1 [1, 0] = Inr (child2, pos2, n2) \<and>
     crossover (\<lambda>i. Draw 0 0) 0 (Some [3, 0]) (Some [1, 2]) 3 = Inr ((child1, child2), pos2) \<and>
     n1 \<le> nat \<bar>int (sum_list [3, 2 :: nat]) - 3\<bar> \<and>
     n2 \<le> nat \<bar>int (sum_list [1, 0 :: nat]) - 3\<bar> \<and>
     int (sum_list child1) = 3 \<and> int (sum_list child2) = 3"
  using crossover_repair_terminates
          [of "[3, 0]" 2 "[1, 2]" 3 1 "\<lambda>i. Draw 0 0" 0 "[3, 2]" "[1, 0]"]
  by (simp add: random_index_zero)

text \<open>
  C6: with at most one station, \<open>runGA\<close> yields no progress record and returns the
  result with the empty allocation, throughput 0, no buffers used and best fitness
  negative infinity, whatever the other parameters, the settings and the random draws.
\<close>

theorem runGA_degenerate:
  "numStations P \<le> 1 \<Longrightarrow>
   runGA P S rnd =
     ([], Inr \<lparr>bestAllocation = [], predictedThroughput = 0, totalBuffersUsed = 0,
               bestFitness = NegInf\<rparr>)"
  by (simp add: runGA_def)

theorem runGA_degenerate_witness:
  "runGA \<lparr>numStations = 1, totalBuffers = 10, w1 = Fin 1, w2 = Fin 0\<rparr>
         \<lparr>populationSize = 5, generations = 7, mutationRate = Fin 0, crossoverRate = Fin 1,
          tournamentSize = 2\<rparr> (\<lambda>i. Draw 0 0) =
     ([], Inr \<lparr>bestAllocation = [], predictedThroughput = 0, totalBuffersUsed = 0,
               bestFitness = NegInf\<rparr>)"
  using runGA_degenerate
          [of "\<lparr>numStations = 1, totalBuffers = 10, w1 = Fin 1, w2 = Fin 0\<rparr>"
              "\<lparr>populationSize = 5, generations = 7, mutationRate = Fin 0,
                crossoverRate = Fin 1, tournamentSize = 2\<rparr>" "\<lambda>i. Draw 0 0"]
  by simp

text \<open>
  C7: in a run with at least two stations and a population of at least one, each progress
  record that is yielded belongs to a generation that began in a state \<open>st\<close> whose
  population, the one evaluated in that generation, has \<open>populationSize\<close> members, and the
  average fitness of the record is the sum of the fitnesses of that population divided by
  \<open>populationSize\<close>.
\<close>

theorem avgFitness_of_evaluated_population:
  assumes "2 \<le> numStations P" and "1 \<le> populationSize S"
    and "i < length (fst (runGA P S rnd))"
  shows "\<exists>st fits.
           fst (runGA_trace P S rnd) ! i = (st, fst (runGA P S rnd) ! i) \<and>
           length (population st) = nat (populationSize S) \<and>
           fitnesses_of (w1 P) (w2 P) (population st) = Inr fits \<and>
           avgFitness (fst (runGA P S rnd) ! i) =
             jdiv_length (foldl jadd (Fin 0) fits) (nat (populationSize S))"
proof -
  let ?tr = "fst (runGA_trace P S rnd)"
  have i: "i < length ?tr"
    using assms(3) by (simp add: runGA_progress [OF assms(1)])
  then have mem: "?tr ! i \<in> set ?tr"
    by simp
  have "length (population (initial_state P S rnd)) = nat (populationSize S)"
    using initial_state_inv [OF assms(1,2), of rnd] by (simp add: ga_inv_def)
  then have "length (population (fst (?tr ! i))) = nat (populationSize S) \<and>
     (\<exists>fits. fitnesses_of (w1 P) (w2 P) (population (fst (?tr ! i))) = Inr fits \<and>
        avgFitness (snd (?tr ! i)) =
          jdiv_length (foldl jadd (Fin 0) fits) (nat (populationSize S)))"
    using ga_loop_avg [OF assms(2), of "initial_state P S rnd" P rnd 0] mem
    unfolding runGA_trace_def by blast
  moreover have "fst (runGA P S rnd) ! i = snd (?tr ! i)"
    using i by (simp add: runGA_progress [OF assms(1)])
  ultimately show ?thesis
    by (metis prod.collapse)
qed

theorem avgFitness_of_evaluated_population_witness:
  "\<exists>st fits.
     fst (runGA_trace example_params example_settings zero_draws) ! 1
       = (st, fst (runGA example_params example_settings zero_draws) ! 1) \<and>
     length (population st) = nat (populationSize example_settings) \<and>
     fitnesses_of (w1 example_params) (w2 example_params) (population st) = Inr fits \<and>
     avgFitness (fst (runGA example_params example_settings zero_draws) ! 1) =
       jdiv_length (foldl jadd (Fin 0) fits) (nat (populationSize example_settings))"
  using avgFitness_of_evaluated_population [of example_params example_settings 1 zero_draws]
  by (simp add: example_run) (simp add: example_params_def example_settings_def)

text \<open>
  C9: for a population without empty cells and not empty itself, fitnesses of the same
  length and a tournament size of at least one:
  if every fitness is greater than negative infinity, the first iteration of the loop
  overwrites the accumulator with a chromosome, and the selection returns a chromosome,
  one that is a member of the population;
  if every fitness drawn is negative infinity or NaN, the selection returns \<^verbatim>\<open>null\<close>.
\<close>

theorem tournamentSelection_null_safety:
  assumes "pop \<noteq> []" and "length fits = length pop" and "1 \<le> T" and "None \<notin> set pop"
  shows "((\<forall>f \<in> set fits. jgt f NegInf) \<longrightarrow>
            (\<exists>c. fst (fst (tournament_loop rnd pop fits 1 pos (None, NegInf))) = Some c) \<and>
            (\<exists>c. fst (tournamentSelection rnd pos pop fits T) = Some c \<and> Some c \<in> set pop)) \<and>
         ((\<forall>i < nat T. fits ! random_index (rnd (pos + i)) (length pop) = NegInf \<or>
                        fits ! random_index (rnd (pos + i)) (length pop) = NaN) \<longrightarrow>
            fst (tournamentSelection rnd pos pop fits T) = None)"
proof (intro conjI impI)
  assume gt: "\<forall>f \<in> set fits. jgt f NegInf"
  have "fst (fst (tournament_loop rnd pop fits (Suc 0) pos (None, NegInf))) \<in> set pop"
    using tournament_loop_first [OF assms(1,2) gt, of rnd 0 pos]
      cell_member [of "random_index (rnd pos) (length pop)" pop] assms(1)
    by (simp add: random_index_less)
  then have "fst (fst (tournament_loop rnd pop fits 1 pos (None, NegInf))) \<in> set pop"
    by (simp only: One_nat_def)
  then show "\<exists>c. fst (fst (tournament_loop rnd pop fits 1 pos (None, NegInf))) = Some c"
    using assms(4) by (rule member_is_Some)
  have sel: "fst (tournamentSelection rnd pos pop fits T) \<in> set pop"
    using tournamentSelection_member [OF assms(1,2) gt assms(3)] .
  then obtain c where "fst (tournamentSelection rnd pos pop fits T) = Some c"
    using member_is_Some [OF sel assms(4)] by blast
  then show "\<exists>c. fst (tournamentSelection rnd pos pop fits T) = Some c \<and> Some c \<in> set pop"
    using sel by auto
next
  assume "\<forall>i < nat T. fits ! random_index (rnd (pos + i)) (length pop) = NegInf \<or>
                       fits ! random_index (rnd (pos + i)) (length pop) = NaN"
  then have "\<forall>i < nat T. \<not> jgt (fits ! random_index (rnd (pos + i)) (length pop)) NegInf"
    by auto
  then show "fst (tournamentSelection rnd pos pop fits T) = None"
    by (simp add: tournamentSelection_eq tournament_loop_none)
qed

theorem tournamentSelection_null_safety_witness:
  "(\<exists>c. fst (fst (tournament_loop (\<lambda>i. Draw 0 0) [Some [1, 2], Some [3, 0]] [Fin 5, Fin 7] 1 0
                  (None, NegInf))) = Some c) \<and>
   (\<exists>c. fst (tournamentSelection (\<lambda>i. Draw 0 0) 0 [Some [1, 2], Some [3, 0]] [Fin 5, Fin 7] 2)
           = Some c \<and> Some c \<in> set [Some [1, 2], Some [3, 0]]) \<and>
   fst (tournamentSelection (\<lambda>i. Draw 0 0) 0 [Some [1, 2], Some [3, 0]] [NegInf, NaN] 2) = None"
  using tournamentSelection_null_safety
          [of "[Some [1, 2], Some [3, 0]]" "[Fin 5, Fin 7]" 2 "\<lambda>i. Draw 0 0" 0]
        tournamentSelection_null_safety
          [of "[Some [1, 2], Some [3, 0]]" "[NegInf, NaN]" 2 "\<lambda>i. Draw 0 0" 0]
  by (simp add: random_index_zero)

text \<open>
  C10: with at least two stations, a non-negative number of buffers, a population of at
  least one and zero generations, \<open>runGA\<close> yields no progress record and returns the
  first individual of the initial population, which is the first individual created; its
  buffers add up to \<open>totalBuffers\<close> and the best fitness is negative infinity.
\<close>

theorem runGA_zero_generations:
  assumes "2 \<le> numStations P" and "0 \<le> totalBuffers P" and "1 \<le> populationSize S"
    and "generations S = 0"
  shows "\<exists>first.
           cell (population (initial_state P S rnd)) 0 = Some first \<and>
           first = fst (createIndividual rnd 0 (numStations P - 1) (totalBuffers P)) \<and>
           runGA P S rnd =
             ([], Inr \<lparr>bestAllocation = first, predictedThroughput = predictThroughput first,
                       totalBuffersUsed = totalBuffers P, bestFitness = NegInf\<rparr>)"
proof -
  define first where "first = fst (createIndividual rnd 0 (numStations P - 1) (totalBuffers P))"
  have L: "0 < numStations P - 1"
    using assms(1) by simp
  have head: "cell (population (initial_state P S rnd)) 0 = Some first"
    using initializePopulation_head [OF assms(3), of rnd 0 "numStations P - 1" "totalBuffers P"]
    by (simp add: initial_state_def first_def case_prod_beta)
  have sum: "int (sum_list first) = totalBuffers P"
    using createIndividual_props [OF L, of rnd 0 "totalBuffers P"] assms(2)
    by (simp add: first_def)
  have best: "bestEver (initial_state P S rnd) = Some first"
    using head by (simp add: initial_state_def case_prod_beta)
  have fit: "bestFitnessEver (initial_state P S rnd) = NegInf"
    by (simp add: initial_state_def case_prod_beta)
  have "runGA_trace P S rnd = ([], Inr (initial_state P S rnd))"
    using assms(4) by (simp add: runGA_trace_def ga_loop_done)
  then have "runGA P S rnd =
      ([], Inr \<lparr>bestAllocation = first, predictedThroughput = predictThroughput first,
                totalBuffersUsed = totalBuffers P, bestFitness = NegInf\<rparr>)"
    using L best fit sum by (simp add: runGA_def final_result_def)
  then show ?thesis
    using head first_def by blast
qed

theorem runGA_zero_generations_witness:
  "\<exists>first.
     cell (population (initial_state
            \<lparr>numStations = 3, totalBuffers = 4, w1 = Fin 1, w2 = Fin 1\<rparr>
            \<lparr>populationSize = 2, generations = 0, mutationRate = Fin 0, crossoverRate = Fin 0,
             tournamentSize = 1\<rparr> (\<lambda>i. Draw 0 0))) 0 = Some first \<and>
     first = fst (createIndividual (\<lambda>i. Draw 0 0) 0 2 4) \<and>
     runGA \<lparr>numStations = 3, totalBuffers = 4, w1 = Fin 1, w2 = Fin 1\<rparr>
           \<lparr>populationSize = 2, generations = 0, mutationRate = Fin 0, crossoverRate = Fin 0,
            tournamentSize = 1\<rparr> (\<lambda>i. Draw 0 0) =
       ([], Inr \<lparr>bestAllocation = first, predictedThroughput = predictThroughput first,
                 totalBuffersUsed = 4, bestFitness = NegInf\<rparr>)"
  using runGA_zero_generations
          [of "\<lparr>numStations = 3, totalBuffers = 4, w1 = Fin 1, w2 = Fin 1\<rparr>"
              "\<lparr>populationSize = 2, generations = 0, mutationRate = Fin 0,
                crossoverRate = Fin 0, tournamentSize = 1\<rparr>" "\<lambda>i. Draw 0 0"]
  by simp

end
